theory Spec2Isabelle
  imports Main
begin

section \<open>Pseudographic text: the data of \<open>2Lab_Pseudographic_Text/main.cpp\<close>\<close>

text \<open>
  The class \<open>PseudographicText\<close> renders a string with a bitmap font read from a text
  file. The model follows the source function by function. Sizes and loop counters are
  natural numbers: the source keeps them in \<open>int\<close> and \<open>size_t\<close>, and the model agrees with
  it as long as \<open>str.size() * fontSize\<close> fits an \<open>int\<close>.
\<close>

datatype Color = Black | Blue | Green | Cyan | Red | Magenta | Yellow | White
  | BrightBlack | BrightBlue | BrightGreen | BrightCyan | BrightRed | BrightMagenta
  | BrightYellow | BrightWhite

text \<open>\<open>static_cast<int>(Color)\<close>: the enumerators count from 0 in declaration order.\<close>

fun Color_to_int :: "Color \<Rightarrow> nat" where
  "Color_to_int Black = 0"
| "Color_to_int Blue = 1"
| "Color_to_int Green = 2"
| "Color_to_int Cyan = 3"
| "Color_to_int Red = 4"
| "Color_to_int Magenta = 5"
| "Color_to_int Yellow = 6"
| "Color_to_int White = 7"
| "Color_to_int BrightBlack = 8"
| "Color_to_int BrightBlue = 9"
| "Color_to_int BrightGreen = 10"
| "Color_to_int BrightCyan = 11"
| "Color_to_int BrightRed = 12"
| "Color_to_int BrightMagenta = 13"
| "Color_to_int BrightYellow = 14"
| "Color_to_int BrightWhite = 15"

text \<open>
  \<open>enum class FontSize { Small = 5, Big = 7 }\<close> is a scoped enumeration with underlying
  type \<open>int\<close>: an object of the type holds whatever value of the underlying type was
  cast into it, the two enumerators being only the named ones. \<open>FontSize_of_int n\<close> is
  \<open>static_cast<FontSize>(n)\<close> and \<open>FontSize_to_int\<close> is \<open>static_cast<int>\<close>. Sizes being
  natural numbers here, a negative value cast into the type is not modelled.
\<close>

datatype FontSize = FontSize_of_int nat

definition Small :: FontSize where
  "Small = FontSize_of_int 5"

definition Big :: FontSize where
  "Big = FontSize_of_int 7"

fun FontSize_to_int :: "FontSize \<Rightarrow> nat" where
  "FontSize_to_int (FontSize_of_int n) = n"

record PseudographicText =
  str :: string
  textChar :: char
  backgroundChar :: char
  fontSize :: nat
  textColor :: Color

definition availableChars :: string where
  "availableChars = ''ABCDEFGHIJKLMNOPQRSTUVWXYZ .,!?0123456789''"

text \<open>
  \<open>std::string::find(char)\<close>: the index of the first occurrence, or \<open>npos\<close> (here \<open>None\<close>).
  The source compares the result with \<open>-1\<close>, which converts to \<open>npos\<close>.
\<close>

primrec find_str :: "string \<Rightarrow> char \<Rightarrow> nat option" where
  "find_str [] c = None"
| "find_str (x # xs) c = (if x = c then Some 0 else map_option Suc (find_str xs c))"

text \<open>The default member initialisers, used by both constructors.\<close>

definition default_text :: PseudographicText where
  "default_text = \<lparr>str = [], textChar = CHR ''#'', backgroundChar = CHR '' '',
     fontSize = FontSize_to_int Small, textColor = BrightWhite\<rparr>"

section \<open>The setters\<close>

text \<open>
  The loop of \<open>setString\<close>: it scans the argument from the left and stops at the first
  character that \<open>availableChars\<close> does not contain.
\<close>

primrec first_unavailable :: "string \<Rightarrow> char option" where
  "first_unavailable [] = None"
| "first_unavailable (c # cs) =
     (if find_str availableChars c = None then Some c else first_unavailable cs)"

text \<open>The line \<open>setString\<close> writes to \<open>std::cerr\<close> for the character \<open>c\<close>.\<close>

definition unavailable_message :: "char \<Rightarrow> string" where
  "unavailable_message c =
     ''Error: character '' @ [CHR 0x27, c, CHR 0x27] @ '' is unavailable'' @ [CHR 0x0A]"

text \<open>
  \<open>setString\<close> returns nothing; its two outcomes are the early return after the message
  on \<open>std::cerr\<close>, the object untouched, and the assignment. The pair gives what was
  written to \<open>std::cerr\<close> and the object after the call.
\<close>

definition setString :: "string \<Rightarrow> PseudographicText \<Rightarrow> string \<times> PseudographicText" where
  "setString s t =
     (case first_unavailable s of
        Some c \<Rightarrow> (unavailable_message c, t)
      | None \<Rightarrow> ([], t\<lparr>str := s\<rparr>))"

definition setTextChar :: "char \<Rightarrow> PseudographicText \<Rightarrow> PseudographicText" where
  "setTextChar c t = t\<lparr>textChar := c\<rparr>"

definition setBackgroundChar :: "char \<Rightarrow> PseudographicText \<Rightarrow> PseudographicText" where
  "setBackgroundChar c t = t\<lparr>backgroundChar := c\<rparr>"

definition setFontSize :: "FontSize \<Rightarrow> PseudographicText \<Rightarrow> PseudographicText" where
  "setFontSize sz t = t\<lparr>fontSize := FontSize_to_int sz\<rparr>"

definition setTextColor :: "Color \<Rightarrow> PseudographicText \<Rightarrow> PseudographicText" where
  "setTextColor color t = t\<lparr>textColor := color\<rparr>"

text \<open>
  The five-argument constructor: the initialiser list sets the two characters and the
  colour, then the body calls \<open>setString\<close> and \<open>setFontSize\<close>.
\<close>

definition construct ::
  "string \<Rightarrow> char \<Rightarrow> char \<Rightarrow> FontSize \<Rightarrow> Color \<Rightarrow> string \<times> PseudographicText" where
  "construct s tc bc sz color =
     (let t0 = default_text\<lparr>textChar := tc, backgroundChar := bc, textColor := color\<rparr>;
          (err, t1) = setString s t0
      in (err, setFontSize sz t1))"

section \<open>\<open>state\<close>\<close>

text \<open>\<open>std::to_string\<close> on the non-negative values the class holds: decimal digits.\<close>

function to_string :: "nat \<Rightarrow> string" where
  "to_string n =
     (if n < 10 then [''0123456789'' ! n]
      else to_string (n div 10) @ [''0123456789'' ! (n mod 10)])"
  by pat_completeness auto
termination
  by (relation "measure (\<lambda>n. n)") auto

definition state :: "PseudographicText \<Rightarrow> string" where
  "state t =
     ''(String: '' @ str t @ '', TextChar: '' @ [textChar t]
       @ '', BackgroundChar: '' @ [backgroundChar t]
       @ '', FontSize: '' @ to_string (fontSize t)
       @ '', TextColor: '' @ to_string (Color_to_int (textColor t)) @ '')''"

section \<open>\<open>createCharTable\<close>: reading the font file\<close>

text \<open>
  The files the program can open, by name: \<open>None\<close> is a file that does not exist. An
  \<open>ifstream\<close> is the text still to be read, or \<open>None\<close> once its fail bit is set (the
  source never clears it, so every later extraction fails too).
\<close>

type_synonym files = "string \<Rightarrow> string option"

type_synonym ifstream = "string option"

type_synonym charTable = "char list list list"

text \<open>\<open>isspace\<close> in the classic locale: what \<open>operator>>\<close> skips before a character.\<close>

definition isspace :: "char \<Rightarrow> bool" where
  "isspace c \<longleftrightarrow> c \<in> {CHR '' '', CHR 0x09, CHR 0x0A, CHR 0x0B, CHR 0x0C, CHR 0x0D}"

text \<open>
  \<open>in >> ch\<close> for a \<open>char\<close>: skip white space, then take one character. At the end of the
  text, or on a stream that has already failed, the fail bit is set and nothing is
  stored.
\<close>

definition extract_char :: "ifstream \<Rightarrow> char option \<times> ifstream" where
  "extract_char ins =
     (case ins of
        None \<Rightarrow> (None, None)
      | Some cs \<Rightarrow>
          (case dropWhile isspace cs of
             [] \<Rightarrow> (None, None)
           | c # rest \<Rightarrow> (Some c, Some rest)))"

text \<open>
  The table right after the three nested \<open>new\<close>: one glyph per available character,
  \<open>fontSize\<close> rows of \<open>fontSize\<close> cells. \<open>new char[n]\<close> does not initialise the cells: their
  contents are whatever the heap holds, the parameter \<open>heap\<close>.
\<close>

definition alloc_table :: "(nat \<Rightarrow> nat \<Rightarrow> nat \<Rightarrow> char) \<Rightarrow> nat \<Rightarrow> charTable" where
  "alloc_table heap fs =
     map (\<lambda>i. map (\<lambda>j. map (\<lambda>k. heap i j k) [0..<fs]) [0..<fs]) [0..<length availableChars]"

text \<open>The body of the innermost loop: \<open>in >> charTable[i][j][k]\<close>.\<close>

definition read_mark ::
  "nat \<Rightarrow> nat \<Rightarrow> nat \<Rightarrow> charTable \<times> ifstream \<Rightarrow> charTable \<times> ifstream" where
  "read_mark j i k = (\<lambda>(tab, ins).
     (case extract_char ins of
        (None, ins') \<Rightarrow> (tab, ins')
      | (Some c, ins') \<Rightarrow> (tab[i := (tab ! i)[j := (tab ! i ! j)[k := c]]], ins')))"

text \<open>The name of the font file for the object's size.\<close>

definition font_file :: "PseudographicText \<Rightarrow> string" where
  "font_file t = ''font_size_'' @ to_string (fontSize t) @ ''.txt''"

text \<open>
  The loops run over rows \<open>j\<close>, then characters \<open>i\<close>, then columns \<open>k\<close>. Neither \<open>open\<close> nor
  any extraction is checked.
\<close>

definition createCharTable ::
  "PseudographicText \<Rightarrow> files \<Rightarrow> (nat \<Rightarrow> nat \<Rightarrow> nat \<Rightarrow> char) \<Rightarrow> charTable" where
  "createCharTable t fs heap =
     (let tab0 = alloc_table heap (fontSize t);
          ins0 = fs (font_file t)
      in fst (fold (\<lambda>j. fold (\<lambda>i. fold (read_mark j i) [0..<fontSize t])
                             [0..<length availableChars])
                [0..<fontSize t] (tab0, ins0)))"

section \<open>\<open>createText\<close>: composing the buffer\<close>

text \<open>A loop whose body can run into undefined behaviour (\<open>None\<close>), which ends the run.\<close>

primrec fold_option :: "('a \<Rightarrow> 's \<Rightarrow> 's option) \<Rightarrow> 'a list \<Rightarrow> 's \<Rightarrow> 's option" where
  "fold_option f [] s = Some s"
| "fold_option f (x # xs) s =
     (case f x s of None \<Rightarrow> None | Some s' \<Rightarrow> fold_option f xs s')"

text \<open>The buffer after \<open>new\<close>: \<open>fontSize\<close> rows of \<open>str.size() * fontSize\<close> cells, not initialised.\<close>

definition alloc_text :: "(nat \<Rightarrow> nat \<Rightarrow> char) \<Rightarrow> nat \<Rightarrow> nat \<Rightarrow> char list list" where
  "alloc_text heap fs w = map (\<lambda>j. map (\<lambda>c. heap j c) [0..<w]) [0..<fs]"

text \<open>
  The body of the innermost loop. \<open>availableChars.find(str[i])\<close> indexes the table; when
  it is \<open>npos\<close>, or the table has no cell there, the read is out of bounds, which is
  undefined behaviour (\<open>None\<close>). The mark is copied first and then replaced when it is
  \<open>'1'\<close> or \<open>'0'\<close>. The buffer was allocated for every cell the loops write.
\<close>

definition compose_cell ::
  "PseudographicText \<Rightarrow> charTable \<Rightarrow> nat \<Rightarrow> nat \<Rightarrow> nat \<Rightarrow> char list list
     \<Rightarrow> char list list option" where
  "compose_cell t tab i j k text =
     (case find_str availableChars (str t ! i) of
        None \<Rightarrow> None
      | Some g \<Rightarrow>
          if g < length tab \<and> j < length (tab ! g) \<and> k < length (tab ! g ! j) then
            (let m = tab ! g ! j ! k;
                 col = i * fontSize t + k;
                 text1 = text[j := (text ! j)[col := m]]
             in Some (if m = CHR ''1'' then text1[j := (text1 ! j)[col := textChar t]]
                      else if m = CHR ''0'' then text1[j := (text1 ! j)[col := backgroundChar t]]
                      else text1))
          else None)"

definition createText ::
  "PseudographicText \<Rightarrow> charTable \<Rightarrow> (nat \<Rightarrow> nat \<Rightarrow> char) \<Rightarrow> char list list option" where
  "createText t tab heap =
     fold_option (\<lambda>i. fold_option (\<lambda>j. fold_option (compose_cell t tab i j) [0..<fontSize t])
                                   [0..<fontSize t])
       [0..<length (str t)]
       (alloc_text heap (fontSize t) (length (str t) * fontSize t))"

section \<open>\<open>output\<close>: writing to the console\<close>

text \<open>
  The member \<open>output\<close> is \<open>output_text\<close> here, since \<open>output\<close> is reserved.
  The console keeps the active text attribute; \<open>trace\<close> lists the calls made on it in
  order: attribute changes, cursor moves and the characters sent to \<open>std::cout\<close>.
\<close>

datatype event = SetAttr nat | SetPos int int | Put char

record console =
  attribute :: nat
  trace :: "event list"

definition SetConsoleTextAttribute :: "nat \<Rightarrow> console \<Rightarrow> console" where
  "SetConsoleTextAttribute a c = c\<lparr>attribute := a, trace := trace c @ [SetAttr a]\<rparr>"

definition SetConsoleCursorPosition :: "int \<Rightarrow> int \<Rightarrow> console \<Rightarrow> console" where
  "SetConsoleCursorPosition x y c = c\<lparr>trace := trace c @ [SetPos x y]\<rparr>"

definition cout :: "char \<Rightarrow> console \<Rightarrow> console" where
  "cout ch c = c\<lparr>trace := trace c @ [Put ch]\<rparr>"

text \<open>The fields of \<open>COORD\<close> are \<open>SHORT\<close>: an \<open>int\<close> stored there keeps its low 16 bits.\<close>

definition to_SHORT :: "int \<Rightarrow> int" where
  "to_SHORT x = signed_take_bit 15 x"

text \<open>
  The body of the inner loop: one cell, and \<open>backgroundChar\<close> after every \<open>fontSize\<close>-th.
  Reading a cell the buffer does not have is undefined behaviour (\<open>None\<close>).
\<close>

definition output_cell ::
  "PseudographicText \<Rightarrow> char list list \<Rightarrow> nat \<Rightarrow> nat \<Rightarrow> console \<Rightarrow> console option" where
  "output_cell t text i j c =
     (if i < length text \<and> j < length (text ! i) then
        (let c1 = cout (text ! i ! j) c
         in Some (if (j + 1) mod fontSize t = 0 then cout (backgroundChar t) c1 else c1))
      else None)"

text \<open>One turn of the outer loop: the cursor to the start of row \<open>i\<close>, the row, a newline.\<close>

definition output_row ::
  "PseudographicText \<Rightarrow> char list list \<Rightarrow> int \<Rightarrow> int \<Rightarrow> nat \<Rightarrow> console \<Rightarrow> console option" where
  "output_row t text line column i c =
     map_option (cout (CHR 0x0A))
       (fold_option (output_cell t text i) [0..<length (str t) * fontSize t]
          (SetConsoleCursorPosition (to_SHORT column) (to_SHORT (line + int i)) c))"

definition output_text ::
  "PseudographicText \<Rightarrow> char list list \<Rightarrow> int \<Rightarrow> int \<Rightarrow> console \<Rightarrow> console option" where
  "output_text t text line column c =
     map_option
       (SetConsoleTextAttribute (Color_to_int Black * 16 + Color_to_int BrightWhite))
       (fold_option (output_row t text line column) [0..<fontSize t]
          (SetConsoleCursorPosition (to_SHORT column) (to_SHORT line)
             (SetConsoleTextAttribute (Color_to_int (textColor t)) c)))"

section \<open>\<open>print\<close>\<close>

text \<open>
  The member \<open>print\<close> builds the table, composes the buffer, writes it and frees both
  (freeing has no effect on the console). \<open>None\<close> is undefined behaviour on the way. \<open>theap\<close> and \<open>bheap\<close> are the heap contents under
  the fresh table and the fresh buffer.
\<close>

definition print ::
  "PseudographicText \<Rightarrow> int \<Rightarrow> int \<Rightarrow> files \<Rightarrow> (nat \<Rightarrow> nat \<Rightarrow> nat \<Rightarrow> char)
     \<Rightarrow> (nat \<Rightarrow> nat \<Rightarrow> char) \<Rightarrow> console \<Rightarrow> console option" where
  "print t line column fs theap bheap c =
     (case createText t (createCharTable t fs theap) bheap of
        None \<Rightarrow> None
      | Some text \<Rightarrow> output_text t text line column c)"

text \<open>
  The static \<open>print\<close>: a temporary object from the five-argument constructor, then the
  member \<open>print\<close>. The result is what went to \<open>std::cerr\<close> and the console afterwards.
\<close>

definition print_static ::
  "string \<Rightarrow> char \<Rightarrow> char \<Rightarrow> FontSize \<Rightarrow> Color \<Rightarrow> int \<Rightarrow> int \<Rightarrow> files
     \<Rightarrow> (nat \<Rightarrow> nat \<Rightarrow> nat \<Rightarrow> char) \<Rightarrow> (nat \<Rightarrow> nat \<Rightarrow> char) \<Rightarrow> console
     \<Rightarrow> string \<times> console option" where
  "print_static s tc bc sz color line column fs theap bheap c =
     (let (err, text) = construct s tc bc sz color
      in (err, print text line column fs theap bheap c))"

section \<open>The public operations as steps\<close>

datatype operation =
    OpSetString string
  | OpSetTextChar char
  | OpSetBackgroundChar char
  | OpSetFontSize FontSize
  | OpSetTextColor Color
  | OpState
  | OpPrint int int

text \<open>The object after a call; \<open>state\<close> and \<open>print\<close> are \<open>const\<close> members.\<close>

fun apply_operation :: "operation \<Rightarrow> PseudographicText \<Rightarrow> PseudographicText" where
  "apply_operation (OpSetString s) t = snd (setString s t)"
| "apply_operation (OpSetTextChar c) t = setTextChar c t"
| "apply_operation (OpSetBackgroundChar c) t = setBackgroundChar c t"
| "apply_operation (OpSetFontSize sz) t = setFontSize sz t"
| "apply_operation (OpSetTextColor color) t = setTextColor color t"
| "apply_operation OpState t = t"
| "apply_operation (OpPrint line column) t = t"

section \<open>Notions used to state the properties\<close>

text \<open>The marks a stream still holds: its characters that are not white space.\<close>

definition marks :: "ifstream \<Rightarrow> string" where
  "marks ins = (case ins of None \<Rightarrow> [] | Some cs \<Rightarrow> filter (\<lambda>c. \<not> isspace c) cs)"

text \<open>The row lengths of every glyph of a table.\<close>

definition dims :: "charTable \<Rightarrow> nat list list" where
  "dims tab = map (map length) tab"

definition wf_table :: "nat \<Rightarrow> charTable \<Rightarrow> bool" where
  "wf_table fs tab \<longleftrightarrow> dims tab = replicate (length availableChars) (replicate fs fs)"

text \<open>One store into the table, and one read of it, at row \<open>j\<close> of glyph \<open>i\<close>, column \<open>k\<close>.\<close>

definition write_mark :: "(nat \<times> nat \<times> nat) \<times> char \<Rightarrow> charTable \<Rightarrow> charTable" where
  "write_mark = (\<lambda>((j, i, k), c) tab. tab[i := (tab ! i)[j := (tab ! i ! j)[k := c]]])"

definition mark_at :: "charTable \<Rightarrow> nat \<times> nat \<times> nat \<Rightarrow> char" where
  "mark_at tab = (\<lambda>(j, i, k). tab ! i ! j ! k)"

text \<open>The cells in the order the three loops of \<open>createCharTable\<close> visit them.\<close>

definition read_order :: "nat \<Rightarrow> (nat \<times> nat \<times> nat) list" where
  "read_order fs = List.product [0..<fs] (List.product [0..<length availableChars] [0..<fs])"

text \<open>
  The layout of the font resource as the specification words it: the marks come row by
  row across all glyphs, so row \<open>j\<close> of the glyph of character \<open>i\<close> is the run of \<open>fs\<close> marks
  that starts at mark number \<open>(j * n + i) * fs\<close>, for \<open>n\<close> characters. A cell whose mark
  the resource does not hold has the heap's content.
\<close>

definition interleaved_layout ::
  "(nat \<Rightarrow> nat \<Rightarrow> nat \<Rightarrow> char) \<Rightarrow> nat \<Rightarrow> string \<Rightarrow> charTable" where
  "interleaved_layout heap fs ms =
     map (\<lambda>i. map (\<lambda>j. map (\<lambda>k.
            (let p = (j * length availableChars + i) * fs + k
             in if p < length ms then ms ! p else heap i j k))
          [0..<fs]) [0..<fs]) [0..<length availableChars]"

text \<open>A buffer of \<open>h\<close> rows of \<open>w\<close> cells; one store into a buffer, and one read of it.\<close>

definition wf_text :: "nat \<Rightarrow> nat \<Rightarrow> char list list \<Rightarrow> bool" where
  "wf_text h w text \<longleftrightarrow> map length text = replicate h w"

definition write_cell :: "(nat \<times> nat) \<times> char \<Rightarrow> char list list \<Rightarrow> char list list" where
  "write_cell = (\<lambda>((j, col), v) text. text[j := (text ! j)[col := v]])"

definition cell_at :: "char list list \<Rightarrow> nat \<times> nat \<Rightarrow> char" where
  "cell_at text = (\<lambda>(j, col). text ! j ! col)"

text \<open>What \<open>createText\<close> leaves in a cell for the mark \<open>m\<close>.\<close>

definition render_mark :: "PseudographicText \<Rightarrow> char \<Rightarrow> char" where
  "render_mark t m =
     (if m = CHR ''1'' then textChar t else if m = CHR ''0'' then backgroundChar t else m)"

text \<open>The position \<open>find\<close> gives an available character (0 stands in for any other).\<close>

definition glyph_index :: "char \<Rightarrow> nat" where
  "glyph_index ch = (case find_str availableChars ch of Some g \<Rightarrow> g | None \<Rightarrow> 0)"

text \<open>
  The triples (character, row, column) in the order the loops of \<open>createText\<close> visit
  them, and the store each of them makes.
\<close>

definition compose_order :: "nat \<Rightarrow> nat \<Rightarrow> (nat \<times> nat \<times> nat) list" where
  "compose_order n fs = List.product [0..<n] (List.product [0..<fs] [0..<fs])"

definition compose_write ::
  "PseudographicText \<Rightarrow> charTable \<Rightarrow> nat \<times> nat \<times> nat \<Rightarrow> (nat \<times> nat) \<times> char" where
  "compose_write t tab = (\<lambda>(i, j, k).
     ((j, i * fontSize t + k), render_mark t (tab ! glyph_index (str t ! i) ! j ! k)))"

text \<open>Appending calls to the trace of the console.\<close>

definition emit :: "event list \<Rightarrow> console \<Rightarrow> console" where
  "emit evs c = c\<lparr>trace := trace c @ evs\<rparr>"

text \<open>What one turn of the inner loop of \<open>output\<close> sends for column \<open>j\<close> of a row.\<close>

definition cell_events :: "PseudographicText \<Rightarrow> char list \<Rightarrow> nat \<Rightarrow> event list" where
  "cell_events t row j =
     Put (row ! j) # (if (j + 1) mod fontSize t = 0 then [Put (backgroundChar t)] else [])"

text \<open>A row with \<open>backgroundChar\<close> after each group of \<open>fontSize\<close> cells, one group per character.\<close>

definition spaced_row :: "PseudographicText \<Rightarrow> char list \<Rightarrow> char list" where
  "spaced_row t row =
     concat (map (\<lambda>m. take (fontSize t) (drop (m * fontSize t) row) @ [backgroundChar t])
               [0..<length (str t)])"

text \<open>The calls for row \<open>i\<close>: the cursor, the spaced row, the newline.\<close>

definition row_events ::
  "PseudographicText \<Rightarrow> char list list \<Rightarrow> int \<Rightarrow> int \<Rightarrow> nat \<Rightarrow> event list" where
  "row_events t buf line column i =
     SetPos (to_SHORT column) (to_SHORT (line + int i))
       # map Put (spaced_row t (buf ! i)) @ [Put (CHR 0x0A)]"

text \<open>All calls of one \<open>output\<close>: colour, cursor, the rows, the default colour.\<close>

definition output_events ::
  "PseudographicText \<Rightarrow> char list list \<Rightarrow> int \<Rightarrow> int \<Rightarrow> event list" where
  "output_events t buf line column =
     [SetAttr (Color_to_int (textColor t)), SetPos (to_SHORT column) (to_SHORT line)]
       @ concat (map (row_events t buf line column) [0..<fontSize t])
       @ [SetAttr 15]"

text \<open>
  The objects a program can hold: made by one of the two constructors, then changed by
  any sequence of public calls.
\<close>

datatype construction = DefaultConstructor | Constructor string char char FontSize Color

fun constructed :: "construction \<Rightarrow> PseudographicText" where
  "constructed DefaultConstructor = default_text"
| "constructed (Constructor s tc bc sz color) = snd (construct s tc bc sz color)"

definition after_operations :: "construction \<Rightarrow> operation list \<Rightarrow> PseudographicText" where
  "after_operations k ops = fold apply_operation ops (constructed k)"

text \<open>
  A program that passes only the enumerators \<open>Small\<close> and \<open>Big\<close> wherever a size is
  asked for: to the constructor and to every \<open>setFontSize\<close>.
\<close>

definition named_size :: "FontSize \<Rightarrow> bool" where
  "named_size sz \<longleftrightarrow> sz = Small \<or> sz = Big"

fun named_construction :: "construction \<Rightarrow> bool" where
  "named_construction DefaultConstructor = True"
| "named_construction (Constructor s tc bc sz color) = named_size sz"

fun named_operation :: "operation \<Rightarrow> bool" where
  "named_operation (OpSetFontSize sz) = named_size sz"
| "named_operation (OpSetString s) = True"
| "named_operation (OpSetTextChar c) = True"
| "named_operation (OpSetBackgroundChar c) = True"
| "named_operation (OpSetTextColor color) = True"
| "named_operation OpState = True"
| "named_operation (OpPrint line column) = True"

section \<open>Validation against the alphabet\<close>

lemma FontSize_to_int_Small [simp]: "FontSize_to_int Small = 5"
  by (simp add: Small_def)

lemma FontSize_to_int_Big [simp]: "FontSize_to_int Big = 7"
  by (simp add: Big_def)

lemma named_size_5_or_7: "named_size sz \<Longrightarrow> FontSize_to_int sz \<in> {5, 7}"
  by (auto simp: named_size_def)

lemma find_str_None: "find_str xs c = None \<longleftrightarrow> c \<notin> set xs"
  by (induction xs) auto

lemma find_str_nth: "distinct xs \<Longrightarrow> n < length xs \<Longrightarrow> find_str xs (xs ! n) = Some n"
proof (induction xs arbitrary: n)
  case Nil
  then show ?case by simp
next
  case (Cons x xs)
  then show ?case by (cases n) auto
qed

lemma first_unavailable_None:
  "first_unavailable s = None \<longleftrightarrow> set s \<subseteq> set availableChars"
  by (induction s) (auto simp: find_str_None)

lemma first_unavailable_Some:
  "first_unavailable s = Some c \<longleftrightarrow>
     (\<exists>pre post. s = pre @ c # post \<and> set pre \<subseteq> set availableChars
        \<and> c \<notin> set availableChars)"
proof (induction s)
  case Nil
  then show ?case by simp
next
  case (Cons x s)
  show ?case
  proof (cases "x \<in> set availableChars")
    case False
    have "(\<exists>pre post. x # s = pre @ c # post \<and> set pre \<subseteq> set availableChars
             \<and> c \<notin> set availableChars) \<longleftrightarrow> x = c"
    proof
      assume "\<exists>pre post. x # s = pre @ c # post \<and> set pre \<subseteq> set availableChars
                \<and> c \<notin> set availableChars"
      then obtain pre post where e: "x # s = pre @ c # post"
        and p: "set pre \<subseteq> set availableChars" by blast
      show "x = c"
      proof (cases pre)
        case Nil
        with e show ?thesis by simp
      next
        case (Cons y ys)
        with e p False show ?thesis by auto
      qed
    next
      assume "x = c"
      with False have "x # s = [] @ c # s \<and> set [] \<subseteq> set availableChars
          \<and> c \<notin> set availableChars" by simp
      then show "\<exists>pre post. x # s = pre @ c # post \<and> set pre \<subseteq> set availableChars
                \<and> c \<notin> set availableChars" by blast
    qed
    with False show ?thesis by (simp add: find_str_None)
  next
    case True
    have "(\<exists>pre post. x # s = pre @ c # post \<and> set pre \<subseteq> set availableChars
             \<and> c \<notin> set availableChars) \<longleftrightarrow>
          (\<exists>pre post. s = pre @ c # post \<and> set pre \<subseteq> set availableChars
             \<and> c \<notin> set availableChars)" (is "?L \<longleftrightarrow> ?R")
    proof
      assume ?L
      then obtain pre post where e: "x # s = pre @ c # post"
        and p: "set pre \<subseteq> set availableChars" and c: "c \<notin> set availableChars" by blast
      show ?R
      proof (cases pre)
        case Nil
        with e c True show ?thesis by simp
      next
        case (Cons y ys)
        with e p c have "s = ys @ c # post \<and> set ys \<subseteq> set availableChars
            \<and> c \<notin> set availableChars" by simp
        then show ?thesis by blast
      qed
    next
      assume ?R
      then obtain pre post where "s = pre @ c # post"
        and "set pre \<subseteq> set availableChars" and "c \<notin> set availableChars" by blast
      with True have "x # s = (x # pre) @ c # post \<and> set (x # pre) \<subseteq> set availableChars
          \<and> c \<notin> set availableChars" by simp
      then show ?L by blast
    qed
    with True Cons.IH show ?thesis by (simp add: find_str_None)
  qed
qed

lemma first_unavailable_exists:
  "\<not> set s \<subseteq> set availableChars \<Longrightarrow> \<exists>c. first_unavailable s = Some c"
  using first_unavailable_None [of s] by (cases "first_unavailable s") auto

subsection \<open>Loops over index ranges\<close>

lemma fold_product:
  "fold (\<lambda>x. fold (g x) ys) xs = fold (\<lambda>(x, y). g x y) (List.product xs ys)"
proof (induction xs)
  case Nil
  then show ?case by simp
next
  case (Cons x xs)
  have "fold (\<lambda>(a, y). g a y) (map (Pair x) ys) = fold (g x) ys"
    by (simp add: fold_map comp_def)
  with Cons show ?case by simp
qed

lemma fold_writes:
  assumes inv: "\<And>x b. I b \<Longrightarrow> x \<in> set xs \<Longrightarrow> I (step x b)"
    and get: "\<And>x b q. I b \<Longrightarrow> x \<in> set xs \<Longrightarrow> q \<in> D \<Longrightarrow>
                 get (step x b) q = (if q = pos x then val x else get b q)"
    and D: "pos ` set xs \<subseteq> D"
    and I: "I b"
    and dist: "distinct (map pos xs)"
  shows "I (fold step xs b)
     \<and> (\<forall>x\<in>set xs. get (fold step xs b) (pos x) = val x)
     \<and> (\<forall>q\<in>D. q \<notin> pos ` set xs \<longrightarrow> get (fold step xs b) q = get b q)"
  using assms
proof (induction xs arbitrary: b)
  case Nil
  then show ?case by simp
next
  case (Cons x xs)
  have Ib: "I (step x b)" using Cons.prems(1,4) by simp
  have IH: "I (fold step xs (step x b))
     \<and> (\<forall>y\<in>set xs. get (fold step xs (step x b)) (pos y) = val y)
     \<and> (\<forall>q\<in>D. q \<notin> pos ` set xs \<longrightarrow> get (fold step xs (step x b)) q = get (step x b) q)"
  proof (rule Cons.IH)
    show "\<And>y b. I b \<Longrightarrow> y \<in> set xs \<Longrightarrow> I (step y b)" using Cons.prems(1) by simp
    show "\<And>y b q. I b \<Longrightarrow> y \<in> set xs \<Longrightarrow> q \<in> D \<Longrightarrow>
                 get (step y b) q = (if q = pos y then val y else get b q)"
      using Cons.prems(2) by simp
    show "pos ` set xs \<subseteq> D" using Cons.prems(3) by auto
    show "I (step x b)" by (rule Ib)
    show "distinct (map pos xs)" using Cons.prems(5) by simp
  qed
  have px: "pos x \<in> D" "pos x \<notin> pos ` set xs" using Cons.prems(3,5) by auto
  have gx: "\<And>q. q \<in> D \<Longrightarrow> get (step x b) q = (if q = pos x then val x else get b q)"
    using Cons.prems(2,4) by simp
  have "get (fold step xs (step x b)) (pos x) = val x"
    using IH px gx by simp
  moreover have "\<forall>q\<in>D. q \<notin> pos ` set (x # xs) \<longrightarrow> get (fold step xs (step x b)) q = get b q"
    using IH gx by auto
  ultimately show ?case using IH by simp
qed

subsection \<open>Reading the font file\<close>

lemma wf_table_iff:
  "wf_table fs tab \<longleftrightarrow>
     length tab = length availableChars
     \<and> (\<forall>i<length availableChars. length (tab ! i) = fs
           \<and> (\<forall>j<fs. length (tab ! i ! j) = fs))"
  unfolding wf_table_def dims_def
  by (auto simp: list_eq_iff_nth_eq)

lemma wf_alloc_table: "wf_table fs (alloc_table heap fs)"
  by (simp add: wf_table_iff alloc_table_def)

lemma mark_at_alloc_table:
  "i < length availableChars \<Longrightarrow> j < fs \<Longrightarrow> k < fs \<Longrightarrow>
     mark_at (alloc_table heap fs) (j, i, k) = heap i j k"
  by (simp add: mark_at_def alloc_table_def)

lemma wf_write_mark:
  assumes "wf_table fs tab"
  shows "wf_table fs (write_mark (p, c) tab)"
proof -
  obtain j i k where p: "p = (j, i, k)" by (cases p) auto
  let ?tab = "tab[i := (tab ! i)[j := (tab ! i ! j)[k := c]]]"
  have len: "length tab = length availableChars"
    and rows: "\<And>a. a < length availableChars \<Longrightarrow> length (tab ! a) = fs"
    and cols: "\<And>a b. a < length availableChars \<Longrightarrow> b < fs \<Longrightarrow> length (tab ! a ! b) = fs"
    using assms by (simp_all add: wf_table_iff)
  have "length (?tab ! a) = fs \<and> (\<forall>b<fs. length (?tab ! a ! b) = fs)"
    if a: "a < length availableChars" for a
  proof (cases "a = i")
    case True
    have "length ((tab ! i)[j := (tab ! i ! j)[k := c]] ! b) = fs" if "b < fs" for b
      using that a True rows cols by (cases "b = j") simp_all
    then show ?thesis using a True len rows by simp
  next
    case False
    then show ?thesis using a rows cols by simp
  qed
  then show ?thesis using len by (simp add: wf_table_iff write_mark_def p)
qed

lemma mark_at_write_mark:
  assumes "wf_table fs tab"
    and "j < fs" "i < length availableChars" "k < fs"
    and "j' < fs" "i' < length availableChars" "k' < fs"
  shows "mark_at (write_mark ((j, i, k), c) tab) (j', i', k') =
           (if (j', i', k') = (j, i, k) then c else mark_at tab (j', i', k'))"
  using assms by (auto simp: wf_table_iff write_mark_def mark_at_def nth_list_update)

lemma extract_char_empty:
  assumes "marks ins = []"
  shows "extract_char ins = (None, None)"
proof (cases ins)
  case None
  then show ?thesis by (simp add: extract_char_def)
next
  case (Some cs)
  with assms have "\<forall>c\<in>set cs. isspace c" by (simp add: marks_def filter_empty_conv)
  then have "dropWhile isspace cs = []" by simp
  with Some show ?thesis by (simp add: extract_char_def del: dropWhile_eq_Nil_conv)
qed

lemma extract_char_mark:
  assumes "marks ins = c # ms"
  shows "\<exists>ins'. extract_char ins = (Some c, ins') \<and> marks ins' = ms"
proof (cases ins)
  case None
  with assms show ?thesis by (simp add: marks_def)
next
  case (Some cs)
  with assms have f: "filter (\<lambda>c. \<not> isspace c) cs = c # ms" by (simp add: marks_def)
  have "filter (\<lambda>c. \<not> isspace c) cs = filter (\<lambda>c. \<not> isspace c) (dropWhile isspace cs)"
    by (induction cs) auto
  with f have g: "filter (\<lambda>c. \<not> isspace c) (dropWhile isspace cs) = c # ms" by simp
  then obtain d rest where d: "dropWhile isspace cs = d # rest"
    by (cases "dropWhile isspace cs") auto
  then have "\<not> isspace d" by (simp add: dropWhile_eq_Cons_conv)
  with g d have "d = c" "filter (\<lambda>c. \<not> isspace c) rest = ms" by auto
  with Some d show ?thesis by (simp add: extract_char_def marks_def)
qed

lemma fold_read_mark:
  "fst (fold (\<lambda>(j, i, k). read_mark j i k) ps (tab, ins)) =
     fold write_mark (zip ps (marks ins)) tab"
proof (induction ps arbitrary: tab ins)
  case Nil
  then show ?case by simp
next
  case (Cons p ps)
  obtain j i k where p: "p = (j, i, k)" by (cases p) auto
  show ?case
  proof (cases "marks ins")
    case Nil
    then have "read_mark j i k (tab, ins) = (tab, None)"
      by (simp add: read_mark_def extract_char_empty)
    moreover have "marks None = []" by (simp add: marks_def)
    ultimately show ?thesis using Cons.IH [of tab None] Nil p by simp
  next
    case (Cons c ms)
    then obtain ins' where e: "extract_char ins = (Some c, ins')" and m: "marks ins' = ms"
      using extract_char_mark by blast
    then have "read_mark j i k (tab, ins) = (write_mark (p, c) tab, ins')"
      by (simp add: read_mark_def write_mark_def p)
    then show ?thesis using Cons.IH [of "write_mark (p, c) tab" ins'] Cons m p by simp
  qed
qed

lemma createCharTable_fold:
  "createCharTable t fs heap =
     fold write_mark
       (zip (read_order (fontSize t))
            (marks (fs (font_file t))))
       (alloc_table heap (fontSize t))"
proof -
  have "(\<lambda>j. fold (\<lambda>i. fold (read_mark j i) [0..<fontSize t]) [0..<length availableChars])
      = (\<lambda>j. fold (\<lambda>(i, k). read_mark j i k)
                 (List.product [0..<length availableChars] [0..<fontSize t]))"
    by (simp add: fold_product)
  then have "fold (\<lambda>j. fold (\<lambda>i. fold (read_mark j i) [0..<fontSize t])
                             [0..<length availableChars]) [0..<fontSize t]
      = fold (\<lambda>(j, i, k). read_mark j i k) (read_order (fontSize t))"
    by (simp add: fold_product read_order_def)
  then show ?thesis
    by (simp add: createCharTable_def fold_read_mark)
qed

lemma div_offset: "b < m \<Longrightarrow> (a * m + b) div m = (a::nat)"
  by simp

lemma mod_offset: "b < m \<Longrightarrow> (a * m + b) mod m = (b::nat)"
  by simp

lemma length_read_order: "length (read_order fs) = fs * (length availableChars * fs)"
  by (simp add: read_order_def)

lemma distinct_read_order: "distinct (read_order fs)"
  by (simp add: read_order_def distinct_product)

lemma set_read_order:
  "set (read_order fs) = {(j, i, k). j < fs \<and> i < length availableChars \<and> k < fs}"
  by (auto simp: read_order_def)

lemma read_order_nth:
  assumes "j < fs" "i < length availableChars" "k < fs"
  shows "read_order fs ! ((j * length availableChars + i) * fs + k) = (j, i, k)"
proof -
  let ?n = "length availableChars"
  let ?p = "(j * ?n + i) * fs + k"
  have e: "?p = j * (?n * fs) + (i * fs + k)" by (simp add: algebra_simps)
  have "i * fs + k < Suc i * fs" using assms(3) by simp
  also have "\<dots> \<le> ?n * fs" using assms(2) by (intro mult_le_mono1) simp
  finally have lt: "i * fs + k < ?n * fs" .
  have "j * (?n * fs) + (i * fs + k) < Suc j * (?n * fs)" using lt by simp
  also have "\<dots> \<le> fs * (?n * fs)" using assms(1) by (intro mult_le_mono1) simp
  finally have lt2: "?p < fs * (?n * fs)" using e by simp
  have d: "?p div (?n * fs) = j"
    unfolding e using lt by (rule div_offset)
  have m: "?p mod (?n * fs) = i * fs + k"
    unfolding e using lt by (rule mod_offset)
  have d2: "(i * fs + k) div fs = i" using assms(3) by (rule div_offset)
  have m2: "(i * fs + k) mod fs = k" using assms(3) by (rule mod_offset)
  have "read_order fs ! ?p =
     ([0..<fs] ! (?p div (?n * fs)), List.product [0..<?n] [0..<fs] ! (?p mod (?n * fs)))"
    unfolding read_order_def using lt2 by (subst product_nth) simp_all
  also have "\<dots> = (j, List.product [0..<?n] [0..<fs] ! (i * fs + k))"
    using assms(1) by (simp only: d m) simp
  also have "List.product [0..<?n] [0..<fs] ! (i * fs + k) = (i, k)"
    using lt assms by (subst product_nth) (simp_all add: d2 m2 del: mult_Suc)
  finally show ?thesis .
qed

lemma read_order_position:
  assumes "j < fs" "i < length availableChars" "k < fs"
  shows "(j * length availableChars + i) * fs + k < length (read_order fs)"
proof -
  have "(j, i, k) \<in> set (read_order fs)" using assms by (simp add: set_read_order)
  let ?n = "length availableChars"
  have "i * fs + k < Suc i * fs" using assms(3) by simp
  also have "\<dots> \<le> ?n * fs" using assms(2) by (intro mult_le_mono1) simp
  finally have lt: "i * fs + k < ?n * fs" .
  have "(j * ?n + i) * fs + k = j * (?n * fs) + (i * fs + k)" by (simp add: algebra_simps)
  also have "\<dots> < Suc j * (?n * fs)" using lt by simp
  also have "\<dots> \<le> fs * (?n * fs)" using assms(1) by (intro mult_le_mono1) simp
  finally show ?thesis by (simp add: length_read_order)
qed

lemma fold_write_mark:
  fixes L :: "(nat \<times> nat \<times> nat) list"
  assumes wf: "wf_table fs tab"
  shows "wf_table fs (fold write_mark (zip (read_order fs) ms) tab)
     \<and> (\<forall>x\<in>set (zip (read_order fs) ms).
           mark_at (fold write_mark (zip (read_order fs) ms) tab) (fst x) = snd x)
     \<and> (\<forall>q\<in>set (read_order fs). q \<notin> fst ` set (zip (read_order fs) ms) \<longrightarrow>
           mark_at (fold write_mark (zip (read_order fs) ms) tab) q = mark_at tab q)"
proof (rule fold_writes [where I = "wf_table fs" and D = "set (read_order fs)"
      and get = mark_at and pos = fst and val = snd])
  show "wf_table fs (write_mark x b)" if "wf_table fs b" for x b
    using that wf_write_mark [of fs b "fst x" "snd x"] by simp
  show "mark_at (write_mark x b) q = (if q = fst x then snd x else mark_at b q)"
    if "wf_table fs b" "x \<in> set (zip (read_order fs) ms)" "q \<in> set (read_order fs)" for x b q
  proof -
    obtain j i k c where x: "x = ((j, i, k), c)" by (cases x) auto
    obtain j' i' k' where q: "q = (j', i', k')" by (cases q) auto
    have "(j, i, k) \<in> set (read_order fs)" using that(2) x by (auto dest: set_zip_leftD)
    then show ?thesis
      using that(1,3) x q mark_at_write_mark [of fs b j i k j' i' k' c]
      by (simp add: set_read_order)
  qed
  show "fst ` set (zip (read_order fs) ms) \<subseteq> set (read_order fs)"
    by (auto dest: set_zip_leftD)
  show "wf_table fs tab" by (rule wf)
  show "distinct (map fst (zip (read_order fs) ms))"
    by (simp add: map_fst_zip_take distinct_read_order)
qed

lemma wf_createCharTable: "wf_table (fontSize t) (createCharTable t fs heap)"
  using fold_write_mark [OF wf_alloc_table] by (simp add: createCharTable_fold)

lemma createCharTable_cell:
  assumes "i < length availableChars" "j < fontSize t" "k < fontSize t"
  shows "createCharTable t fs heap ! i ! j ! k =
     (let ms = marks (fs (font_file t));
          p = (j * length availableChars + i) * fontSize t + k
      in if p < length ms then ms ! p else heap i j k)"
proof -
  let ?L = "read_order (fontSize t)"
  let ?ms = "marks (fs (font_file t))"
  let ?p = "(j * length availableChars + i) * fontSize t + k"
  let ?tab = "fold write_mark (zip ?L ?ms) (alloc_table heap (fontSize t))"
  have tab: "createCharTable t fs heap = ?tab"
    by (simp add: createCharTable_fold)
  have w: "(\<forall>x\<in>set (zip ?L ?ms). mark_at ?tab (fst x) = snd x)
     \<and> (\<forall>q\<in>set ?L. q \<notin> fst ` set (zip ?L ?ms) \<longrightarrow>
           mark_at ?tab q = mark_at (alloc_table heap (fontSize t)) q)"
    using fold_write_mark [OF wf_alloc_table, of "fontSize t" ?ms heap] by blast
  have nth: "?L ! ?p = (j, i, k)" using assms by (simp add: read_order_nth)
  have pL: "?p < length ?L" using assms by (simp add: read_order_position)
  have "mark_at ?tab (j, i, k) = (if ?p < length ?ms then ?ms ! ?p else heap i j k)"
  proof (cases "?p < length ?ms")
    case True
    have "(?L ! ?p, ?ms ! ?p) \<in> set (zip ?L ?ms)"
      using True pL by (auto simp: in_set_zip)
    with w have "mark_at ?tab (fst (?L ! ?p, ?ms ! ?p)) = snd (?L ! ?p, ?ms ! ?p)" by blast
    with nth True show ?thesis by simp
  next
    case False
    have "(j, i, k) \<notin> fst ` set (zip ?L ?ms)"
    proof
      assume "(j, i, k) \<in> fst ` set (zip ?L ?ms)"
      then obtain x where x: "x \<in> set (zip ?L ?ms)" "fst x = (j, i, k)" by auto
      then obtain n where n: "?L ! n = (j, i, k)" "n < length ?L" "n < length ?ms"
        by (auto simp: in_set_zip)
      with nth pL have "n = ?p"
        using nth_eq_iff_index_eq [OF distinct_read_order, of n "fontSize t" ?p] by simp
      with n False show False by simp
    qed
    moreover have "(j, i, k) \<in> set ?L" using assms by (simp add: set_read_order)
    ultimately have "mark_at ?tab (j, i, k) = mark_at (alloc_table heap (fontSize t)) (j, i, k)"
      using w by blast
    with False assms show ?thesis by (simp add: mark_at_alloc_table)
  qed
  then show ?thesis by (simp add: tab mark_at_def Let_def)
qed

lemma alloc_table_const:
  "alloc_table (\<lambda>i j k. c) fs = replicate (length availableChars) (replicate fs (replicate fs c))"
  by (simp add: alloc_table_def map_replicate_const)

lemma createCharTable_missing_file:
  assumes "fs (font_file t) = None"
  shows "createCharTable t fs heap = alloc_table heap (fontSize t)"
  using assms by (simp add: createCharTable_fold marks_def)

subsection \<open>Composing the buffer\<close>

lemma fold_product3:
  "fold (\<lambda>x. fold (\<lambda>y. fold (\<lambda>z. W (x, y, z)) zs) ys) xs
     = fold W (List.product xs (List.product ys zs))"
proof -
  have a: "(\<lambda>(y, z). W (x, y, z)) = (\<lambda>p. W (x, p))" for x by auto
  have b: "(\<lambda>(x, p). W (x, p)) = W" by auto
  have "fold (\<lambda>x. fold (\<lambda>y. fold (\<lambda>z. W (x, y, z)) zs) ys) xs
      = fold (\<lambda>x. fold (\<lambda>p. W (x, p)) (List.product ys zs)) xs"
    by (simp only: fold_product a)
  also have "\<dots> = fold (\<lambda>(x, p). W (x, p)) (List.product xs (List.product ys zs))"
    by (rule fold_product)
  finally show ?thesis by (simp only: b)
qed

lemma fold_option_Some:
  "(\<And>x s. x \<in> set xs \<Longrightarrow> f x s = Some (g x s)) \<Longrightarrow> fold_option f xs s = Some (fold g xs s)"
  by (induction xs arbitrary: s) simp_all

lemma wf_text_iff:
  "wf_text h w text \<longleftrightarrow> length text = h \<and> (\<forall>j<h. length (text ! j) = w)"
  unfolding wf_text_def by (auto simp: list_eq_iff_nth_eq)

lemma wf_alloc_text: "wf_text fs w (alloc_text heap fs w)"
  by (simp add: wf_text_iff alloc_text_def)

lemma wf_write_cell:
  assumes "wf_text h w buf"
  shows "wf_text h w (write_cell (p, v) buf)"
proof -
  obtain j col where p: "p = (j, col)" by (cases p) auto
  have "length (buf[j := (buf ! j)[col := v]] ! a) = w" if "a < h" for a
    using that assms by (cases "a = j") (simp_all add: wf_text_iff)
  then show ?thesis using assms by (simp add: wf_text_iff write_cell_def p)
qed

lemma cell_at_write_cell:
  assumes "wf_text h w text" "j < h" "col < w" "j' < h" "col' < w"
  shows "cell_at (write_cell ((j, col), v) text) (j', col') =
           (if (j', col') = (j, col) then v else cell_at text (j', col'))"
  using assms by (auto simp: wf_text_iff write_cell_def cell_at_def nth_list_update)

lemma find_str_Some: "find_str xs c = Some g \<Longrightarrow> g < length xs \<and> xs ! g = c"
proof (induction xs arbitrary: g)
  case Nil
  then show ?case by simp
next
  case (Cons x xs)
  then show ?case by (cases "x = c") auto
qed

lemma glyph_index_available:
  assumes "c \<in> set availableChars"
  shows "find_str availableChars c = Some (glyph_index c)"
    and "glyph_index c < length availableChars"
    and "availableChars ! glyph_index c = c"
proof -
  from assms obtain g where g: "find_str availableChars c = Some g"
    using find_str_None [of availableChars c] by (cases "find_str availableChars c") auto
  then show "find_str availableChars c = Some (glyph_index c)" by (simp add: glyph_index_def)
  from g find_str_Some [OF g]
  show "glyph_index c < length availableChars" "availableChars ! glyph_index c = c"
    by (simp_all add: glyph_index_def)
qed

lemma compose_cell_write:
  assumes valid: "set (str t) \<subseteq> set availableChars"
    and wf: "wf_table (fontSize t) tab"
    and i: "i < length (str t)" and j: "j < fontSize t" and k: "k < fontSize t"
  shows "compose_cell t tab i j k text = Some (write_cell (compose_write t tab (i, j, k)) text)"
proof -
  let ?g = "glyph_index (str t ! i)"
  have a: "str t ! i \<in> set availableChars" using valid i by auto
  note g = glyph_index_available [OF a]
  have b: "?g < length tab" "j < length (tab ! ?g)" "k < length (tab ! ?g ! j)"
    using wf g(2) j k by (simp_all add: wf_table_iff)
  show ?thesis
  proof (cases "j < length text")
    case True
    then show ?thesis
      using g(1) b by (simp add: compose_cell_def compose_write_def write_cell_def
          render_mark_def Let_def)
  next
    case False
    then show ?thesis
      using g(1) b by (simp add: compose_cell_def compose_write_def write_cell_def
          render_mark_def Let_def list_update_beyond)
  qed
qed

lemma createText_fold:
  assumes valid: "set (str t) \<subseteq> set availableChars"
    and wf: "wf_table (fontSize t) tab"
  shows "createText t tab heap =
     Some (fold write_cell
             (map (compose_write t tab) (compose_order (length (str t)) (fontSize t)))
             (alloc_text heap (fontSize t) (length (str t) * fontSize t)))"
proof -
  let ?fs = "fontSize t"
  let ?W = "\<lambda>p. write_cell (compose_write t tab p)"
  have k: "fold_option (compose_cell t tab i j) [0..<?fs] buf
         = Some (fold (\<lambda>k. ?W (i, j, k)) [0..<?fs] buf)"
    if "i < length (str t)" "j < ?fs" for i j buf
    by (rule fold_option_Some) (insert that, simp add: compose_cell_write [OF valid wf])
  have j: "fold_option (\<lambda>j. fold_option (compose_cell t tab i j) [0..<?fs]) [0..<?fs] buf
         = Some (fold (\<lambda>j. fold (\<lambda>k. ?W (i, j, k)) [0..<?fs]) [0..<?fs] buf)"
    if "i < length (str t)" for i buf
    by (rule fold_option_Some) (insert that, simp add: k)
  have i: "createText t tab heap
         = Some (fold (\<lambda>i. fold (\<lambda>j. fold (\<lambda>k. ?W (i, j, k)) [0..<?fs]) [0..<?fs])
                   [0..<length (str t)]
                   (alloc_text heap ?fs (length (str t) * ?fs)))"
    unfolding createText_def by (rule fold_option_Some) (simp add: j)
  have "fold (\<lambda>i. fold (\<lambda>j. fold (\<lambda>k. ?W (i, j, k)) [0..<?fs]) [0..<?fs])
                   [0..<length (str t)]
      = fold ?W (compose_order (length (str t)) ?fs)"
    unfolding compose_order_def by (rule fold_product3)
  also have "\<dots> = fold write_cell (map (compose_write t tab) (compose_order (length (str t)) ?fs))"
    by (simp add: fold_map comp_def)
  finally show ?thesis using i by simp
qed

lemma set_compose_order:
  "set (compose_order n fs) = {(i, j, k). i < n \<and> j < fs \<and> k < fs}"
  by (auto simp: compose_order_def)

lemma distinct_compose_order: "distinct (compose_order n fs)"
  by (simp add: compose_order_def distinct_product)

lemma column_bound:
  assumes "i < n" "k < fs"
  shows "i * fs + k < n * (fs::nat)"
proof -
  have "i * fs + k < Suc i * fs" using assms(2) by simp
  also have "\<dots> \<le> n * fs" using assms(1) by (intro mult_le_mono1) simp
  finally show ?thesis .
qed

lemma fst_compose_write: "fst (compose_write t tab (i, j, k)) = (j, i * fontSize t + k)"
  by (simp add: compose_write_def)

lemma snd_compose_write:
  "snd (compose_write t tab (i, j, k)) = render_mark t (tab ! glyph_index (str t ! i) ! j ! k)"
  by (simp add: compose_write_def)

lemma distinct_compose_writes:
  "distinct (map fst (map (compose_write t tab) (compose_order n (fontSize t))))"
proof -
  let ?fs = "fontSize t"
  have "inj_on (\<lambda>p. fst (compose_write t tab p)) (set (compose_order n ?fs))"
  proof (rule inj_onI)
    fix p q
    assume p: "p \<in> set (compose_order n ?fs)" and q: "q \<in> set (compose_order n ?fs)"
      and e: "fst (compose_write t tab p) = fst (compose_write t tab q)"
    obtain i j k where pp: "p = (i, j, k)" by (cases p) auto
    obtain i' j' k' where qq: "q = (i', j', k')" by (cases q) auto
    from p q pp qq have b: "k < ?fs" "k' < ?fs" by (simp_all add: set_compose_order)
    from e pp qq have j: "j = j'" and c: "i * ?fs + k = i' * ?fs + k'"
      by (simp_all add: fst_compose_write)
    have "i = i'" using div_offset [OF b(1), of i] div_offset [OF b(2), of i'] c by simp
    moreover have "k = k'" using mod_offset [OF b(1), of i] mod_offset [OF b(2), of i'] c by simp
    ultimately show "p = q" using j pp qq by simp
  qed
  then show ?thesis
    by (simp add: distinct_map distinct_compose_order comp_def)
qed

lemma createText_cells:
  assumes valid: "set (str t) \<subseteq> set availableChars"
    and wf: "wf_table (fontSize t) tab"
  shows "\<exists>buf. createText t tab heap = Some buf
     \<and> wf_text (fontSize t) (length (str t) * fontSize t) buf
     \<and> (\<forall>i<length (str t). \<forall>j<fontSize t. \<forall>k<fontSize t.
           buf ! j ! (i * fontSize t + k)
             = render_mark t (tab ! glyph_index (str t ! i) ! j ! k))"
proof -
  let ?fs = "fontSize t"
  let ?n = "length (str t)"
  let ?xs = "map (compose_write t tab) (compose_order ?n ?fs)"
  let ?b0 = "alloc_text heap ?fs (?n * ?fs)"
  let ?D = "{(j, col). j < ?fs \<and> col < ?n * ?fs}"
  have pos: "fst x \<in> ?D" if "x \<in> set ?xs" for x
  proof -
    from that obtain i j k where "x = compose_write t tab (i, j, k)" "i < ?n" "j < ?fs" "k < ?fs"
      by (auto simp: set_compose_order)
    then show ?thesis by (simp add: fst_compose_write column_bound)
  qed
  have "wf_text ?fs (?n * ?fs) (fold write_cell ?xs ?b0)
     \<and> (\<forall>x\<in>set ?xs. cell_at (fold write_cell ?xs ?b0) (fst x) = snd x)
     \<and> (\<forall>q\<in>?D. q \<notin> fst ` set ?xs \<longrightarrow> cell_at (fold write_cell ?xs ?b0) q = cell_at ?b0 q)"
  proof (rule fold_writes [where I = "wf_text ?fs (?n * ?fs)" and D = ?D])
    show "wf_text ?fs (?n * ?fs) (write_cell x b)" if "wf_text ?fs (?n * ?fs) b" for x b
      using that wf_write_cell [of ?fs "?n * ?fs" b "fst x" "snd x"] by simp
    show "cell_at (write_cell x b) q = (if q = fst x then snd x else cell_at b q)"
      if "wf_text ?fs (?n * ?fs) b" "x \<in> set ?xs" "q \<in> ?D" for x b q
    proof -
      obtain j col v where x: "x = ((j, col), v)" by (cases x) auto
      obtain j' col' where q: "q = (j', col')" by (cases q) auto
      from pos [OF that(2)] x have "j < ?fs" "col < ?n * ?fs" by simp_all
      then show ?thesis
        using that(1,3) x q cell_at_write_cell [of ?fs "?n * ?fs" b j col j' col' v] by simp
    qed
    show "fst ` set ?xs \<subseteq> ?D"
    proof (rule image_subsetI)
      fix x assume "x \<in> set ?xs"
      then show "fst x \<in> ?D" by (rule pos)
    qed
    show "wf_text ?fs (?n * ?fs) ?b0" by (rule wf_alloc_text)
    show "distinct (map fst ?xs)" by (rule distinct_compose_writes)
  qed
  then have w: "wf_text ?fs (?n * ?fs) (fold write_cell ?xs ?b0)"
    and c: "\<And>x. x \<in> set ?xs \<Longrightarrow> cell_at (fold write_cell ?xs ?b0) (fst x) = snd x"
    by blast+
  have "fold write_cell ?xs ?b0 ! j ! (i * ?fs + k)
      = render_mark t (tab ! glyph_index (str t ! i) ! j ! k)"
    if "i < ?n" "j < ?fs" "k < ?fs" for i j k
  proof -
    have "compose_write t tab (i, j, k) \<in> set ?xs" using that by (simp add: set_compose_order)
    from c [OF this] show ?thesis
      by (simp add: fst_compose_write snd_compose_write cell_at_def)
  qed
  with w createText_fold [OF valid wf, of heap] show ?thesis by simp
qed

lemma wf_table_mark_in_set:
  assumes "wf_table fs tab" "g < length availableChars" "j < fs" "k < fs"
  shows "tab ! g ! j ! k \<in> set (concat (concat tab))"
proof -
  from assms have "g < length tab" "j < length (tab ! g)" "k < length (tab ! g ! j)"
    by (simp_all add: wf_table_iff)
  then have "tab ! g \<in> set tab" "tab ! g ! j \<in> set (tab ! g)"
    "tab ! g ! j ! k \<in> set (tab ! g ! j)" by simp_all
  then show ?thesis by auto
qed

lemma wf_text_cell_position:
  assumes "wf_text fs (n * fs) buf" "c \<in> set (concat buf)"
  shows "\<exists>i j k. i < n \<and> j < fs \<and> k < fs \<and> c = buf ! j ! (i * fs + k)"
proof -
  from assms(2) obtain row where row: "row \<in> set buf" "c \<in> set row" by auto
  then obtain j where j: "j < length buf" "row = buf ! j" by (auto simp: in_set_conv_nth)
  from row(2) obtain col where col: "col < length row" "c = row ! col"
    by (auto simp: in_set_conv_nth)
  from assms(1) j have jfs: "j < fs" and len: "length row = n * fs"
    by (simp_all add: wf_text_iff)
  then have pos: "0 < fs" by simp
  have "col div fs < n" using col(1) len pos by (simp add: less_mult_imp_div_less)
  moreover have "col mod fs < fs" using pos by simp
  moreover have "c = buf ! j ! (col div fs * fs + col mod fs)" using col(2) j(2) by simp
  ultimately show ?thesis using jfs by blast
qed

lemma distinct_availableChars: "distinct availableChars"
  by (simp add: availableChars_def)

lemma mark_position:
  assumes wf: "wf_table fs tab" and m: "m \<in> set (concat (concat tab))"
  shows "\<exists>g j k. g < length availableChars \<and> j < fs \<and> k < fs \<and> m = tab ! g ! j ! k"
proof -
  from m obtain row where row: "row \<in> set (concat tab)" "m \<in> set row" by auto
  from row(1) obtain gl where gl: "gl \<in> set tab" "row \<in> set gl" by auto
  from gl(1) obtain g where g: "g < length tab" "gl = tab ! g" by (auto simp: in_set_conv_nth)
  from gl(2) obtain j where j: "j < length gl" "row = gl ! j" by (auto simp: in_set_conv_nth)
  from row(2) obtain k where k: "k < length row" "m = row ! k" by (auto simp: in_set_conv_nth)
  from wf g have g': "g < length availableChars" by (simp add: wf_table_iff)
  with wf g j have j': "j < fs" by (simp add: wf_table_iff)
  with wf g g' j k have k': "k < fs" by (simp add: wf_table_iff)
  from g j k g' j' k' show ?thesis by blast
qed

lemma cells_restricted_iff:
  assumes wf: "wf_table fs tab"
  shows "(\<forall>u. fontSize u = fs \<and> set (str u) \<subseteq> set availableChars \<longrightarrow>
            (\<exists>buf. createText u tab heap = Some buf
               \<and> set (concat buf) \<subseteq> {textChar u, backgroundChar u}))
       \<longleftrightarrow> set (concat (concat tab)) \<subseteq> {CHR ''1'', CHR ''0''}" (is "?L \<longleftrightarrow> ?R")
proof
  assume R: ?R
  show ?L
  proof (intro allI impI)
    fix u :: PseudographicText assume u: "fontSize u = fs \<and> set (str u) \<subseteq> set availableChars"
    then have v: "set (str u) \<subseteq> set availableChars" and w: "wf_table (fontSize u) tab"
      using wf by simp_all
    from createText_cells [OF v w, of heap]
    obtain buf where b: "createText u tab heap = Some buf"
      and wt: "wf_text (fontSize u) (length (str u) * fontSize u) buf"
      and c: "\<And>i j k. i < length (str u) \<Longrightarrow> j < fontSize u \<Longrightarrow> k < fontSize u \<Longrightarrow>
           buf ! j ! (i * fontSize u + k)
             = render_mark u (tab ! glyph_index (str u ! i) ! j ! k)"
      by blast
    have "set (concat buf) \<subseteq> {textChar u, backgroundChar u}"
    proof
      fix x assume "x \<in> set (concat buf)"
      from wf_text_cell_position [OF wt this]
      obtain i j k where i: "i < length (str u)" and j: "j < fontSize u" and k: "k < fontSize u"
        and x: "x = buf ! j ! (i * fontSize u + k)" by blast
      have a: "str u ! i \<in> set availableChars" using v i by auto
      note g = glyph_index_available [OF a]
      have "tab ! glyph_index (str u ! i) ! j ! k \<in> {CHR ''1'', CHR ''0''}"
        using wf_table_mark_in_set [OF w g(2) j k] R by blast
      with c [OF i j k] x show "x \<in> {textChar u, backgroundChar u}"
        by (auto simp: render_mark_def)
    qed
    with b show "\<exists>buf. createText u tab heap = Some buf
               \<and> set (concat buf) \<subseteq> {textChar u, backgroundChar u}" by blast
  qed
next
  assume L: ?L
  show ?R
  proof
    fix m assume "m \<in> set (concat (concat tab))"
    from mark_position [OF wf this]
    obtain g j k where g: "g < length availableChars" and j: "j < fs" and k: "k < fs"
      and m: "m = tab ! g ! j ! k" by blast
    let ?u = "\<lparr>str = [availableChars ! g], textChar = CHR ''1'', backgroundChar = CHR ''1'',
               fontSize = fs, textColor = Black\<rparr>"
    have v: "set (str ?u) \<subseteq> set availableChars" using g by simp
    have w: "wf_table (fontSize ?u) tab" using wf by simp
    have "fontSize ?u = fs \<and> set (str ?u) \<subseteq> set availableChars" using v by simp
    with L have "\<exists>buf. createText ?u tab heap = Some buf
               \<and> set (concat buf) \<subseteq> {textChar ?u, backgroundChar ?u}" by blast
    then obtain buf where b: "createText ?u tab heap = Some buf"
      and r: "set (concat buf) \<subseteq> {CHR ''1''}" by auto
    from createText_cells [OF v w, of heap] b
    have wt: "wf_text fs (1 * fs) buf"
      and c: "\<And>i j k. i < 1 \<Longrightarrow> j < fs \<Longrightarrow> k < fs \<Longrightarrow>
           buf ! j ! (i * fs + k) = render_mark ?u (tab ! glyph_index (availableChars ! g) ! j ! k)"
      by auto
    have gi: "glyph_index (availableChars ! g) = g"
      using find_str_nth [OF distinct_availableChars g] by (simp add: glyph_index_def)
    from c [of 0 j k] j k gi m have cell: "buf ! j ! k = render_mark ?u m" by simp
    from wt j k have "j < length buf" "k < length (buf ! j)" by (simp_all add: wf_text_iff)
    then have "buf ! j \<in> set buf" "buf ! j ! k \<in> set (buf ! j)" by simp_all
    then have "buf ! j ! k \<in> set (concat buf)" by auto
    with r cell have "render_mark ?u m = CHR ''1''" by auto
    then show "m \<in> {CHR ''1'', CHR ''0''}" by (auto simp: render_mark_def split: if_splits)
  qed
qed

subsection \<open>Writing to the console\<close>

lemma emit_emit: "emit ys (emit xs c) = emit (xs @ ys) c"
  by (simp add: emit_def)

lemma fold_emit: "fold (\<lambda>x. emit (ev x)) xs c = emit (concat (map ev xs)) c"
proof (induction xs arbitrary: c)
  case Nil
  then show ?case by (simp add: emit_def)
next
  case (Cons x xs)
  then show ?case by (simp add: emit_emit)
qed

lemma cout_emit: "cout ch = emit [Put ch]"
  by (simp add: cout_def emit_def fun_eq_iff)

lemma SetConsoleCursorPosition_emit: "SetConsoleCursorPosition x y = emit [SetPos x y]"
  by (simp add: SetConsoleCursorPosition_def emit_def fun_eq_iff)

lemma output_cell_emit:
  assumes "i < length buf" "j < length (buf ! i)"
  shows "output_cell t buf i j c = Some (emit (cell_events t (buf ! i) j) c)"
  using assms by (simp add: output_cell_def cell_events_def cout_emit emit_emit Let_def)

lemma concat_last_extra:
  "0 < n \<Longrightarrow>
     concat (map (\<lambda>k. f k # (if Suc k = n then [z] else [])) [0..<n]) = map f [0..<n] @ [z]"
proof (cases n)
  case 0
  assume "0 < n"
  with 0 show ?thesis by simp
next
  case (Suc d)
  have "map (\<lambda>k. f k # (if k = d then [z] else [])) [0..<d] = map (\<lambda>k. [f k]) [0..<d]"
    by (rule map_cong) simp_all
  then have "concat (map (\<lambda>k. f k # (if k = d then [z] else [])) [0..<d]) = map f [0..<d]"
    by (simp only: concat_map_singleton)
  then show ?thesis unfolding Suc by simp
qed

lemma cell_events_offset:
  assumes "k < fontSize t"
  shows "cell_events t row (m * fontSize t + k)
       = Put (row ! (m * fontSize t + k))
           # (if Suc k = fontSize t then [Put (backgroundChar t)] else [])"
proof -
  have "(m * fontSize t + k + 1) mod fontSize t = Suc k mod fontSize t"
    by (metis Suc_eq_plus1 add_Suc_right mod_mult_self3)
  moreover have "Suc k mod fontSize t = 0 \<longleftrightarrow> Suc k = fontSize t"
  proof (cases "Suc k = fontSize t")
    case True
    then show ?thesis by simp
  next
    case False
    with assms have "Suc k < fontSize t" by simp
    then show ?thesis using False by simp
  qed
  ultimately show ?thesis by (simp add: cell_events_def)
qed

lemma group_events:
  assumes fs: "0 < fontSize t" and len: "m * fontSize t + fontSize t \<le> length row"
  shows "concat (map (cell_events t row) [m * fontSize t..<m * fontSize t + fontSize t])
       = map Put (take (fontSize t) (drop (m * fontSize t) row) @ [backgroundChar t])"
proof -
  let ?fs = "fontSize t"
  let ?a = "m * ?fs"
  have upt: "[?a..<?a + ?fs] = map (\<lambda>k. ?a + k) [0..<?fs]"
    using map_add_upt [of ?a ?fs] by (simp add: add.commute)
  have "map (cell_events t row) [?a..<?a + ?fs]
      = map (\<lambda>k. Put (row ! (?a + k)) # (if Suc k = ?fs then [Put (backgroundChar t)] else []))
          [0..<?fs]"
    unfolding upt map_map by (rule map_cong) (simp_all add: cell_events_offset)
  then have "concat (map (cell_events t row) [?a..<?a + ?fs])
      = map (\<lambda>k. Put (row ! (?a + k))) [0..<?fs] @ [Put (backgroundChar t)]"
    using concat_last_extra [OF fs, of "\<lambda>k. Put (row ! (?a + k))" "Put (backgroundChar t)"]
    by simp
  moreover have "take ?fs (drop ?a row) = map (\<lambda>k. row ! (?a + k)) [0..<?fs]"
  proof (rule nth_equalityI)
    show "length (take ?fs (drop ?a row)) = length (map (\<lambda>k. row ! (?a + k)) [0..<?fs])"
      using len by simp
  next
    fix i assume "i < length (take ?fs (drop ?a row))"
    then show "take ?fs (drop ?a row) ! i = map (\<lambda>k. row ! (?a + k)) [0..<?fs] ! i"
      using len by simp
  qed
  ultimately show ?thesis by (simp add: comp_def)
qed

lemma row_cells_events:
  assumes fs: "0 < fontSize t" and len: "n * fontSize t \<le> length row"
  shows "concat (map (cell_events t row) [0..<n * fontSize t])
       = map Put (concat (map (\<lambda>m. take (fontSize t) (drop (m * fontSize t) row)
                                    @ [backgroundChar t]) [0..<n]))"
  using len
proof (induction n)
  case 0
  then show ?case by simp
next
  case (Suc n)
  let ?fs = "fontSize t"
  have e: "Suc n * ?fs = n * ?fs + ?fs" by simp
  have split: "[0..<Suc n * ?fs] = [0..<n * ?fs] @ [n * ?fs..<n * ?fs + ?fs]"
    unfolding e by (rule upt_add_eq_append) simp
  have le: "n * ?fs + ?fs \<le> length row" using Suc.prems by simp
  have g: "concat (map (cell_events t row) [n * ?fs..<n * ?fs + ?fs])
       = map Put (take ?fs (drop (n * ?fs) row) @ [backgroundChar t])"
    by (rule group_events [OF fs le])
  have "n * ?fs \<le> length row" using le by simp
  from Suc.IH [OF this]
  have "concat (map (cell_events t row) [0..<Suc n * ?fs])
      = map Put (concat (map (\<lambda>m. take ?fs (drop (m * ?fs) row) @ [backgroundChar t]) [0..<n]))
          @ map Put (take ?fs (drop (n * ?fs) row) @ [backgroundChar t])"
    unfolding split by (simp only: map_append concat_append g)
  then show ?case by simp
qed

lemma output_row_emit:
  assumes i: "i < length buf" and len: "length (buf ! i) = length (str t) * fontSize t"
    and fs: "0 < fontSize t"
  shows "output_row t buf line column i c = Some (emit (row_events t buf line column i) c)"
proof -
  let ?c0 = "SetConsoleCursorPosition (to_SHORT column) (to_SHORT (line + int i)) c"
  have "fold_option (output_cell t buf i) [0..<length (str t) * fontSize t] ?c0
      = Some (fold (\<lambda>j. emit (cell_events t (buf ! i) j)) [0..<length (str t) * fontSize t] ?c0)"
    by (rule fold_option_Some) (insert i len, simp add: output_cell_emit)
  also have "fold (\<lambda>j. emit (cell_events t (buf ! i) j)) [0..<length (str t) * fontSize t] ?c0
      = emit (map Put (spaced_row t (buf ! i))) ?c0"
    using row_cells_events [OF fs, of "length (str t)" "buf ! i"] len
    by (simp add: fold_emit spaced_row_def)
  finally show ?thesis
    by (simp add: output_row_def row_events_def cout_emit SetConsoleCursorPosition_emit emit_emit)
qed

lemma output_text_emit:
  assumes "wf_text (fontSize t) (length (str t) * fontSize t) buf"
  shows "output_text t buf line column c
       = Some (c\<lparr>attribute := 15, trace := trace c @ output_events t buf line column\<rparr>)"
proof -
  let ?c1 = "SetConsoleCursorPosition (to_SHORT column) (to_SHORT line)
               (SetConsoleTextAttribute (Color_to_int (textColor t)) c)"
  have "fold_option (output_row t buf line column) [0..<fontSize t] ?c1
      = Some (fold (\<lambda>i. emit (row_events t buf line column i)) [0..<fontSize t] ?c1)"
  proof (rule fold_option_Some)
    fix i s assume "i \<in> set [0..<fontSize t]"
    then have "i < fontSize t" by simp
    then show "output_row t buf line column i s = Some (emit (row_events t buf line column i) s)"
      using assms by (intro output_row_emit) (simp_all add: wf_text_iff)
  qed
  then show ?thesis
    by (simp add: output_text_def fold_emit output_events_def emit_def
        SetConsoleCursorPosition_def SetConsoleTextAttribute_def)
qed

lemma print_valid:
  assumes "set (str t) \<subseteq> set availableChars"
  shows "\<exists>buf. createText t (createCharTable t fs theap) bheap = Some buf
     \<and> wf_text (fontSize t) (length (str t) * fontSize t) buf
     \<and> print t line column fs theap bheap c
       = Some (c\<lparr>attribute := 15, trace := trace c @ output_events t buf line column\<rparr>)"
proof -
  from createText_cells [OF assms wf_createCharTable, of fs theap bheap]
  obtain buf where b: "createText t (createCharTable t fs theap) bheap = Some buf"
    and w: "wf_text (fontSize t) (length (str t) * fontSize t) buf" by blast
  from b output_text_emit [OF w, of line column c]
  have "print t line column fs theap bheap c
       = Some (c\<lparr>attribute := 15, trace := trace c @ output_events t buf line column\<rparr>)"
    by (simp add: print_def)
  with b w show ?thesis by blast
qed

lemma output_text_attribute:
  assumes "output_text t buf line column c = Some c'"
  shows "attribute c' = 15 \<and> last (trace c') = SetAttr 15"
  using assms by (auto simp: output_text_def SetConsoleTextAttribute_def)

lemma construct_unavailable:
  assumes "first_unavailable s = Some c0"
  shows "construct s tc bc sz color =
     (unavailable_message c0,
      \<lparr>str = [], textChar = tc, backgroundChar = bc, fontSize = FontSize_to_int sz,
       textColor = color\<rparr>)"
  using assms by (simp add: construct_def setString_def setFontSize_def default_text_def)

lemma output_events_empty:
  assumes "str t = []"
  shows "output_events t buf line column =
     [SetAttr (Color_to_int (textColor t)), SetPos (to_SHORT column) (to_SHORT line)]
       @ concat (map (\<lambda>i. [SetPos (to_SHORT column) (to_SHORT (line + int i)), Put (CHR 0x0A)])
                   [0..<fontSize t])
       @ [SetAttr 15]"
proof -
  have "row_events t buf line column
      = (\<lambda>i. [SetPos (to_SHORT column) (to_SHORT (line + int i)), Put (CHR 0x0A)])"
    using assms by (simp add: fun_eq_iff row_events_def spaced_row_def)
  then show ?thesis by (simp add: output_events_def)
qed

lemma print_static_first_unavailable:
  assumes "first_unavailable s = Some c0"
  shows "print_static s tc bc sz color line column fs theap bheap c =
     (unavailable_message c0,
      Some (c\<lparr>attribute := 15,
               trace := trace c
                 @ [SetAttr (Color_to_int color), SetPos (to_SHORT column) (to_SHORT line)]
                 @ concat (map (\<lambda>i. [SetPos (to_SHORT column) (to_SHORT (line + int i)),
                                       Put (CHR 0x0A)])
                             [0..<FontSize_to_int sz])
                 @ [SetAttr 15]\<rparr>))"
proof -
  let ?t = "\<lparr>str = [], textChar = tc, backgroundChar = bc, fontSize = FontSize_to_int sz,
       textColor = color\<rparr>"
  have "set (str ?t) \<subseteq> set availableChars" by simp
  from print_valid [OF this, of fs theap bheap line column c]
  obtain buf where "print ?t line column fs theap bheap c
       = Some (c\<lparr>attribute := 15, trace := trace c @ output_events ?t buf line column\<rparr>)"
    by blast
  then show ?thesis
    by (simp add: print_static_def construct_unavailable [OF assms] output_events_empty)
qed

lemma apply_operation_valid:
  assumes "set (str t) \<subseteq> set availableChars"
  shows "set (str (apply_operation op t)) \<subseteq> set availableChars"
proof (cases op)
  case (OpSetString s)
  show ?thesis
  proof (cases "first_unavailable s")
    case None
    with assms OpSetString show ?thesis
      using first_unavailable_None [of s] by (simp add: setString_def)
  next
    case (Some x)
    with assms OpSetString show ?thesis by (simp add: setString_def)
  qed
qed (use assms in \<open>simp_all add: setTextChar_def setBackgroundChar_def setTextColor_def
      setFontSize_def\<close>)

lemma apply_operation_size:
  assumes "fontSize t \<in> {5, 7}" and "named_operation op"
  shows "fontSize (apply_operation op t) \<in> {5, 7}"
proof (cases op)
  case (OpSetString s)
  with assms show ?thesis by (cases "first_unavailable s") (simp_all add: setString_def)
next
  case (OpSetFontSize sz)
  with assms named_size_5_or_7 [of sz] show ?thesis by (simp add: setFontSize_def)
qed (use assms in \<open>simp_all add: setTextChar_def setBackgroundChar_def setTextColor_def\<close>)

lemma construct_valid: "set (str (snd (construct s tc bc sz color))) \<subseteq> set availableChars"
proof (cases "first_unavailable s")
  case None
  then show ?thesis using first_unavailable_None [of s]
    by (simp add: construct_def setString_def setFontSize_def default_text_def)
next
  case (Some x)
  then show ?thesis by (simp add: construct_unavailable)
qed

lemma construct_size: "fontSize (snd (construct s tc bc sz color)) = FontSize_to_int sz"
  by (cases "first_unavailable s")
    (simp_all add: construct_def setString_def setFontSize_def default_text_def)

lemma fold_apply_operation_valid:
  "set (str t) \<subseteq> set availableChars \<Longrightarrow>
     set (str (fold apply_operation ops t)) \<subseteq> set availableChars"
proof (induction ops arbitrary: t)
  case Nil
  then show ?case by simp
next
  case (Cons op ops)
  from apply_operation_valid [OF Cons.prems, of op] Cons.IH show ?case by simp
qed

lemma fold_apply_operation_size:
  "fontSize t \<in> {5, 7} \<Longrightarrow> list_all named_operation ops \<Longrightarrow>
     fontSize (fold apply_operation ops t) \<in> {5, 7}"
proof (induction ops arbitrary: t)
  case Nil
  then show ?case by simp
next
  case (Cons op ops)
  from Cons.prems have "named_operation op" "list_all named_operation ops" by simp_all
  with apply_operation_size [OF Cons.prems(1), of op] Cons.IH show ?case by simp
qed

lemma after_operations_valid: "set (str (after_operations k ops)) \<subseteq> set availableChars"
proof -
  have "set (str (constructed k)) \<subseteq> set availableChars"
  proof (cases k)
    case DefaultConstructor
    then show ?thesis by (simp add: default_text_def)
  next
    case (Constructor s tc bc sz color)
    then show ?thesis using construct_valid [of s tc bc sz color] by simp
  qed
  then show ?thesis unfolding after_operations_def by (rule fold_apply_operation_valid)
qed

lemma after_operations_size:
  assumes "named_construction k" and "list_all named_operation ops"
  shows "fontSize (after_operations k ops) \<in> {5, 7}"
proof -
  have "fontSize (constructed k) \<in> {5, 7}"
  proof (cases k)
    case DefaultConstructor
    then show ?thesis by (simp add: default_text_def)
  next
    case (Constructor s tc bc sz color)
    with assms(1) named_size_5_or_7 [of sz] show ?thesis by (simp add: construct_size)
  qed
  then show ?thesis unfolding after_operations_def
    using assms(2) by (rule fold_apply_operation_size)
qed

section \<open>The claims\<close>

text \<open>
  C1, as stated, has \<open>setString\<close> rejected with a \<open>ValidationError\<close>. \<open>setString\<close> is
  \<open>void\<close> and throws nothing, so its caller gets no error: called with \<open>A@\<close> on an object
  holding \<open>HI\<close>, all it gives is a line on \<open>std::cerr\<close> and the object as it was; and the
  constructor, which calls it with \<open>A@\<close>, is not interrupted: it runs its next statement,
  \<open>setFontSize\<close>, and completes with the size 7 and the empty string.
\<close>

theorem setString_counterexample:
  "setString ''A@'' (default_text\<lparr>str := ''HI''\<rparr>)
     = (''Error: character '' @ [CHR 0x27] @ ''@'' @ [CHR 0x27] @ '' is unavailable''
          @ [CHR 0x0A],
        default_text\<lparr>str := ''HI''\<rparr>)
   \<and> construct ''A@'' (CHR ''*'') (CHR ''.'') Big Red
     = (''Error: character '' @ [CHR 0x27] @ ''@'' @ [CHR 0x27] @ '' is unavailable''
          @ [CHR 0x0A],
        \<lparr>str = [], textChar = CHR ''*'', backgroundChar = CHR ''.'', fontSize = 7,
         textColor = Red\<rparr>)"
proof -
  have a: "setString ''A@'' u = (unavailable_message (CHR ''@''), u)" for u
    by (simp add: setString_def availableChars_def)
  show ?thesis
    by (simp add: a construct_def setFontSize_def default_text_def unavailable_message_def)
qed

text \<open>
  C1, amended. For every object and every argument \<open>s\<close> with at least one character
  outside the alphabet, \<open>setString s\<close> reports no error to its caller. It writes the line
  \<open>Error: character 'c' is unavailable\<close> to \<open>std::cerr\<close>, \<open>c\<close> being the first character of
  \<open>s\<close> outside the alphabet (everything before it is in the alphabet), and returns; the
  object, so also its stored string, is what it was before the call. A constructor
  called with \<open>s\<close> writes the same line and goes on to build the object, with the empty
  string.
\<close>

theorem setString_rejects_unavailable:
  assumes "\<not> set s \<subseteq> set availableChars"
  shows "\<exists>pre c post. s = pre @ c # post \<and> set pre \<subseteq> set availableChars
           \<and> c \<notin> set availableChars
           \<and> setString s t
               = (''Error: character '' @ [CHR 0x27, c, CHR 0x27] @ '' is unavailable''
                    @ [CHR 0x0A], t)
           \<and> str (snd (setString s t)) = str t
           \<and> construct s tc bc sz color
               = (''Error: character '' @ [CHR 0x27, c, CHR 0x27] @ '' is unavailable''
                    @ [CHR 0x0A],
                  \<lparr>str = [], textChar = tc, backgroundChar = bc,
                   fontSize = FontSize_to_int sz, textColor = color\<rparr>)"
proof -
  from assms obtain c where c: "first_unavailable s = Some c"
    using first_unavailable_exists by blast
  then obtain pre post where p: "s = pre @ c # post" "set pre \<subseteq> set availableChars"
    "c \<notin> set availableChars"
    using first_unavailable_Some by blast
  from c have m: "setString s t
               = (''Error: character '' @ [CHR 0x27, c, CHR 0x27] @ '' is unavailable''
                    @ [CHR 0x0A], t)"
    by (simp add: setString_def unavailable_message_def)
  then have u: "str (snd (setString s t)) = str t" by simp
  from c have k: "construct s tc bc sz color
               = (''Error: character '' @ [CHR 0x27, c, CHR 0x27] @ '' is unavailable''
                    @ [CHR 0x0A],
                  \<lparr>str = [], textChar = tc, backgroundChar = bc,
                   fontSize = FontSize_to_int sz, textColor = color\<rparr>)"
    by (simp add: construct_unavailable unavailable_message_def)
  from p m u k show ?thesis by blast
qed

theorem setString_rejects_unavailable_witness:
  "\<not> set ''A@'' \<subseteq> set availableChars
   \<and> setString ''A@'' (default_text\<lparr>str := ''HI''\<rparr>)
       = (''Error: character '' @ [CHR 0x27, CHR ''@'', CHR 0x27] @ '' is unavailable''
            @ [CHR 0x0A],
          default_text\<lparr>str := ''HI''\<rparr>)
   \<and> str (snd (setString ''A@'' (default_text\<lparr>str := ''HI''\<rparr>))) = ''HI''"
proof -
  let ?t = "default_text\<lparr>str := ''HI''\<rparr>"
  have h: "\<not> set ''A@'' \<subseteq> set availableChars" by (simp add: availableChars_def)
  from setString_rejects_unavailable [OF h, of ?t "CHR ''*''" "CHR ''.''" Big Red]
  obtain pre c post where e: "''A@'' = pre @ c # post"
    and p: "set pre \<subseteq> set availableChars" and c: "c \<notin> set availableChars"
    and m: "setString ''A@'' ?t
               = (''Error: character '' @ [CHR 0x27, c, CHR 0x27] @ '' is unavailable''
                    @ [CHR 0x0A], ?t)"
    and u: "str (snd (setString ''A@'' ?t)) = str ?t"
    by blast
  have "c = CHR ''@''"
  proof (cases pre)
    case Nil
    with e have "c = CHR ''A''" by simp
    with c show ?thesis by (simp add: availableChars_def)
  next
    case (Cons x xs)
    with e have xs: "''@'' = xs @ c # post" by simp
    then show ?thesis by (cases xs) simp_all
  qed
  with m have m': "setString ''A@'' ?t
       = (''Error: character '' @ [CHR 0x27, CHR ''@'', CHR 0x27] @ '' is unavailable''
            @ [CHR 0x0A], ?t)" by simp
  from u have u': "str (snd (setString ''A@'' ?t)) = ''HI''" by simp
  show ?thesis by (intro conjI h m' u')
qed

text \<open>
  C2, as stated, gives the alphabet 42 characters. The string has 41: 26 letters, the
  five characters space, full stop, comma, exclamation mark, question mark, and 10
  digits.
\<close>

theorem availableChars_size_counterexample:
  "length availableChars = 41 \<and> length availableChars \<noteq> 42"
  by (simp add: availableChars_def)

text \<open>
  C2, amended. The alphabet is the characters \<open>A\<close> to \<open>Z\<close> (codes 65 to 90), space,
  \<open>.\<close>, \<open>,\<close>, \<open>!\<close>, \<open>?\<close>, \<open>0\<close> to \<open>9\<close> (codes 48 to 57) in that order, 41 characters, none
  twice. \<open>setString\<close> stores its argument exactly when all its characters are in this
  alphabet, the table has one glyph per character of it, and \<open>find\<close> gives each character
  its position in it, which is its glyph's index.
\<close>

theorem availableChars_alphabet:
  "map of_char availableChars = [65..<91] @ [32, 46, 44, 33, 63] @ [48..<58 :: nat]
   \<and> length availableChars = 41
   \<and> distinct availableChars
   \<and> snd (setString s t) = (if set s \<subseteq> set availableChars then t\<lparr>str := s\<rparr> else t)
   \<and> length (createCharTable t fs heap) = length availableChars
   \<and> (\<forall>n<length availableChars. find_str availableChars (availableChars ! n) = Some n)"
proof -
  have a: "map of_char availableChars = [65..<91] @ [32, 46, 44, 33, 63] @ [48..<58 :: nat]"
    by (simp add: availableChars_def upt_rec)
  have b: "length availableChars = 41" by (simp add: availableChars_def)
  have c: "distinct availableChars" by (simp add: availableChars_def)
  have d: "snd (setString s t) = (if set s \<subseteq> set availableChars then t\<lparr>str := s\<rparr> else t)"
  proof (cases "first_unavailable s")
    case None
    then show ?thesis using first_unavailable_None [of s] by (simp add: setString_def)
  next
    case (Some x)
    then have "\<not> set s \<subseteq> set availableChars" using first_unavailable_None [of s] by simp
    with Some show ?thesis by (simp add: setString_def)
  qed
  have e: "length (createCharTable t fs heap) = length availableChars"
    using wf_createCharTable [of t fs heap] by (simp add: wf_table_iff)
  have f: "\<forall>n<length availableChars. find_str availableChars (availableChars ! n) = Some n"
    using c by (simp add: find_str_nth)
  from a b c d e f show ?thesis by blast
qed

theorem availableChars_alphabet_witness:
  "snd (setString ''HI'' default_text) = default_text\<lparr>str := ''HI''\<rparr>
   \<and> find_str availableChars (availableChars ! 7) = Some 7
   \<and> availableChars ! 7 = CHR ''H''"
proof -
  note th = availableChars_alphabet [of "''HI''" default_text "\<lambda>_. None" "\<lambda>_ _ _. CHR ''x''"]
  have s: "set ''HI'' \<subseteq> set availableChars" and n: "(7::nat) < length availableChars"
    and h: "availableChars ! 7 = CHR ''H''"
    by (simp_all add: availableChars_def)
  from th s have "snd (setString ''HI'' default_text) = default_text\<lparr>str := ''HI''\<rparr>"
    by simp
  moreover from th n have "find_str availableChars (availableChars ! 7) = Some 7"
    by blast
  ultimately show ?thesis using h by blast
qed

text \<open>
  C3, as stated, has the static \<open>print\<close> fail and write nothing when the string has an
  unavailable character. For the string \<open>@\<close>, size \<open>Small\<close> and colour \<open>Red\<close> at line 0,
  column 0, the call writes the message to \<open>std::cerr\<close> and then renders the empty
  string: it sets the colour, moves the cursor six times, sends five newlines and
  resets the colour.
\<close>

theorem print_static_counterexample:
  "print_static ''@'' (CHR ''#'') (CHR '' '') Small Red 0 0 (\<lambda>_. None)
     (\<lambda>_ _ _. CHR ''x'') (\<lambda>_ _. CHR ''x'') \<lparr>attribute = 7, trace = []\<rparr>
   = (unavailable_message (CHR ''@''),
      Some \<lparr>attribute = 15,
            trace = [SetAttr 4, SetPos 0 0,
                     SetPos 0 0, Put (CHR 0x0A), SetPos 0 1, Put (CHR 0x0A),
                     SetPos 0 2, Put (CHR 0x0A), SetPos 0 3, Put (CHR 0x0A),
                     SetPos 0 4, Put (CHR 0x0A), SetAttr 15]\<rparr>)"
proof -
  have f: "first_unavailable ''@'' = Some (CHR ''@'')"
    by (simp add: availableChars_def)
  have u: "[0..<5] = [0, 1, 2, 3, 4]" by (simp add: upt_rec)
  show ?thesis
    by (simp add: print_static_first_unavailable [OF f] u to_SHORT_def)
qed

text \<open>
  C3, amended. For every call of the static \<open>print\<close> whose string has a character outside
  the alphabet, the constructor's \<open>setString\<close> writes the message naming the first such
  character to \<open>std::cerr\<close> and leaves the temporary object's string empty; the render
  then goes on with the empty string. The console gets the colour of the call, the
  cursor at the origin, then for each of the \<open>fontSize\<close> rows the cursor at the start of
  the row and a newline, without any glyph cell or spacing character, and last the
  default colour 15.
\<close>

theorem print_static_unavailable_renders_empty:
  assumes "\<not> set s \<subseteq> set availableChars"
  shows "\<exists>pre c0 post c'. s = pre @ c0 # post \<and> set pre \<subseteq> set availableChars
     \<and> c0 \<notin> set availableChars
     \<and> print_static s tc bc sz color line column fs theap bheap c
         = (unavailable_message c0, Some c')
     \<and> attribute c' = 15
     \<and> trace c' = trace c
          @ [SetAttr (Color_to_int color), SetPos (to_SHORT column) (to_SHORT line)]
          @ concat (map (\<lambda>i. [SetPos (to_SHORT column) (to_SHORT (line + int i)),
                                Put (CHR 0x0A)])
                      [0..<FontSize_to_int sz])
          @ [SetAttr 15]"
proof -
  from assms obtain c0 where c0: "first_unavailable s = Some c0"
    using first_unavailable_exists by blast
  then obtain pre post where p: "s = pre @ c0 # post" "set pre \<subseteq> set availableChars"
    "c0 \<notin> set availableChars"
    using first_unavailable_Some by blast
  let ?c' = "c\<lparr>attribute := 15,
               trace := trace c
                 @ [SetAttr (Color_to_int color), SetPos (to_SHORT column) (to_SHORT line)]
                 @ concat (map (\<lambda>i. [SetPos (to_SHORT column) (to_SHORT (line + int i)),
                                       Put (CHR 0x0A)])
                             [0..<FontSize_to_int sz])
                 @ [SetAttr 15]\<rparr>"
  have "print_static s tc bc sz color line column fs theap bheap c
         = (unavailable_message c0, Some ?c')"
    by (rule print_static_first_unavailable [OF c0])
  moreover have "attribute ?c' = 15" by simp
  moreover have "trace ?c' = trace c
          @ [SetAttr (Color_to_int color), SetPos (to_SHORT column) (to_SHORT line)]
          @ concat (map (\<lambda>i. [SetPos (to_SHORT column) (to_SHORT (line + int i)),
                                Put (CHR 0x0A)])
                      [0..<FontSize_to_int sz])
          @ [SetAttr 15]" by simp
  ultimately show ?thesis using p by blast
qed

theorem print_static_unavailable_renders_empty_witness:
  "\<not> set ''H@'' \<subseteq> set availableChars
   \<and> (\<exists>pre c0 post c'. ''H@'' = pre @ c0 # post \<and> set pre \<subseteq> set availableChars
     \<and> c0 \<notin> set availableChars
     \<and> print_static ''H@'' (CHR ''#'') (CHR '' '') Big Red 2 3 (\<lambda>_. None)
           (\<lambda>_ _ _. CHR ''x'') (\<lambda>_ _. CHR ''x'') \<lparr>attribute = 7, trace = []\<rparr>
         = (unavailable_message c0, Some c')
     \<and> attribute c' = 15
     \<and> trace c' = trace \<lparr>attribute = 7, trace = []\<rparr>
          @ [SetAttr (Color_to_int Red), SetPos (to_SHORT 3) (to_SHORT 2)]
          @ concat (map (\<lambda>i. [SetPos (to_SHORT 3) (to_SHORT (2 + int i)), Put (CHR 0x0A)])
                      [0..<FontSize_to_int Big])
          @ [SetAttr 15])"
proof -
  have h: "\<not> set ''H@'' \<subseteq> set availableChars" by (simp add: availableChars_def)
  show ?thesis
    by (intro conjI h print_static_unavailable_renders_empty [OF h])
qed

text \<open>
  C4, as stated, has the loader fail on a missing or malformed resource. With no font
  file at all, \<open>createCharTable\<close> returns the table as allocated, here 41 glyphs of 5 by
  5 cells holding the heap's \<open>x\<close>; with a file of the single mark \<open>Z\<close>, which is neither
  \<open>1\<close> nor \<open>0\<close> and 1024 marks short, it returns a table whose first cell is \<open>Z\<close>.
\<close>

theorem createCharTable_counterexample:
  "createCharTable default_text (\<lambda>_. None) (\<lambda>_ _ _. CHR ''x'')
     = replicate 41 (replicate 5 (replicate 5 (CHR ''x'')))
   \<and> createCharTable default_text (\<lambda>_. Some ''Z'') (\<lambda>_ _ _. CHR ''x'') ! 0 ! 0 ! 0 = CHR ''Z''
   \<and> createCharTable default_text (\<lambda>_. Some ''Z'') (\<lambda>_ _ _. CHR ''x'') ! 0 ! 0 ! 1 = CHR ''x''"
proof -
  have fs: "fontSize default_text = 5" by (simp add: default_text_def)
  have n: "length availableChars = 41" by (simp add: availableChars_def)
  have m: "marks (Some ''Z'') = ''Z''" by (simp add: marks_def isspace_def)
  have "createCharTable default_text (\<lambda>_. None) (\<lambda>_ _ _. CHR ''x'')
     = replicate 41 (replicate 5 (replicate 5 (CHR ''x'')))"
    by (simp add: createCharTable_missing_file alloc_table_const fs n)
  moreover have
    "createCharTable default_text (\<lambda>_. Some ''Z'') (\<lambda>_ _ _. CHR ''x'') ! 0 ! 0 ! 0 = CHR ''Z''"
    by (subst createCharTable_cell) (simp_all add: fs n m)
  moreover have
    "createCharTable default_text (\<lambda>_. Some ''Z'') (\<lambda>_ _ _. CHR ''x'') ! 0 ! 0 ! 1 = CHR ''x''"
    by (subst createCharTable_cell) (simp_all add: fs n m)
  ultimately show ?thesis by blast
qed

text \<open>
  C4, amended. \<open>createCharTable\<close> reports no error for any size and any font resource:
  it always returns a table of one glyph per character of the alphabet, each \<open>fontSize\<close>
  rows of \<open>fontSize\<close> cells. When the file is missing the table is the memory as
  allocated. In general the cell at row \<open>j\<close>, column \<open>k\<close> of glyph \<open>i\<close> holds mark number
  \<open>(j * 41 + i) * fontSize + k\<close> of the file, whatever character that is, and the heap's
  content when the file has no such mark.
\<close>

theorem createCharTable_never_fails:
  "dims (createCharTable t fs heap)
     = replicate (length availableChars) (replicate (fontSize t) (fontSize t))
   \<and> (fs (font_file t) = None \<longrightarrow> createCharTable t fs heap = alloc_table heap (fontSize t))
   \<and> (\<forall>i<length availableChars. \<forall>j<fontSize t. \<forall>k<fontSize t.
         createCharTable t fs heap ! i ! j ! k =
           (let ms = marks (fs (font_file t));
                p = (j * length availableChars + i) * fontSize t + k
            in if p < length ms then ms ! p else heap i j k))"
  using wf_createCharTable [of t fs heap] createCharTable_missing_file [of fs t heap]
    createCharTable_cell [of _ _ t _ fs heap]
  by (simp add: wf_table_def)

theorem createCharTable_never_fails_witness:
  "(\<lambda>_. None) (font_file default_text) = (None :: string option)
   \<and> (0::nat) < length availableChars \<and> (0::nat) < fontSize default_text
   \<and> createCharTable default_text (\<lambda>_. None) (\<lambda>_ _ _. CHR ''x'')
       = alloc_table (\<lambda>_ _ _. CHR ''x'') (fontSize default_text)
   \<and> createCharTable default_text (\<lambda>_. None) (\<lambda>_ _ _. CHR ''x'') ! 0 ! 0 ! 0 = CHR ''x''"
proof -
  note th = createCharTable_never_fails [of default_text "\<lambda>_. None" "\<lambda>_ _ _. CHR ''x''"]
  have h: "(0::nat) < length availableChars" "(0::nat) < fontSize default_text"
    by (simp_all add: availableChars_def default_text_def)
  have m: "marks None = []" by (simp add: marks_def)
  from th have "createCharTable default_text (\<lambda>_. None) (\<lambda>_ _ _. CHR ''x'')
       = alloc_table (\<lambda>_ _ _. CHR ''x'') (fontSize default_text)" by simp
  moreover from th h
  have "createCharTable default_text (\<lambda>_. None) (\<lambda>_ _ _. CHR ''x'') ! 0 ! 0 ! 0 =
           (let ms = marks ((\<lambda>_. None) (font_file default_text));
                p = (0 * length availableChars + 0) * fontSize default_text + 0
            in if p < length ms then ms ! p else CHR ''x'')" by blast
  then have "createCharTable default_text (\<lambda>_. None) (\<lambda>_ _ _. CHR ''x'') ! 0 ! 0 ! 0 = CHR ''x''"
    by (simp add: m)
  ultimately show ?thesis using h by simp
qed



text \<open>
  C6. \<open>createCharTable\<close> reads the resource row by row across all glyphs: for each row
  \<open>j\<close>, for each character \<open>i\<close> of the alphabet in order, it takes \<open>fontSize\<close> marks and
  stores them as row \<open>j\<close> of glyph \<open>i\<close>. The table it returns is the reconstruction
  \<open>interleaved_layout\<close> of the marks of the font file.
\<close>

theorem createCharTable_row_major:
  "createCharTable t fs heap =
     interleaved_layout heap (fontSize t) (marks (fs (font_file t)))"
proof -
  let ?tab = "createCharTable t fs heap"
  have wf: "length ?tab = length availableChars"
    "\<And>i. i < length availableChars \<Longrightarrow> length (?tab ! i) = fontSize t"
    "\<And>i j. i < length availableChars \<Longrightarrow> j < fontSize t \<Longrightarrow> length (?tab ! i ! j) = fontSize t"
    using wf_createCharTable [of t fs heap] by (simp_all add: wf_table_iff)
  show ?thesis
  proof (rule nth_equalityI)
    show "length ?tab = length (interleaved_layout heap (fontSize t) (marks (fs (font_file t))))"
      by (simp add: wf interleaved_layout_def)
  next
    fix i assume "i < length ?tab"
    then have i: "i < length availableChars" by (simp add: wf)
    show "?tab ! i = interleaved_layout heap (fontSize t) (marks (fs (font_file t))) ! i"
    proof (rule nth_equalityI)
      show "length (?tab ! i) =
          length (interleaved_layout heap (fontSize t) (marks (fs (font_file t))) ! i)"
        using i by (simp add: wf interleaved_layout_def)
    next
      fix j assume "j < length (?tab ! i)"
      then have j: "j < fontSize t" using i by (simp add: wf)
      show "?tab ! i ! j =
          interleaved_layout heap (fontSize t) (marks (fs (font_file t))) ! i ! j"
      proof (rule nth_equalityI)
        show "length (?tab ! i ! j) =
            length (interleaved_layout heap (fontSize t) (marks (fs (font_file t))) ! i ! j)"
          using i j by (simp add: wf interleaved_layout_def)
      next
        fix k assume "k < length (?tab ! i ! j)"
        then have k: "k < fontSize t" using i j by (simp add: wf)
        show "?tab ! i ! j ! k =
            interleaved_layout heap (fontSize t) (marks (fs (font_file t))) ! i ! j ! k"
          using i j k createCharTable_cell [of i j t k fs heap]
          by (simp add: interleaved_layout_def Let_def)
      qed
    qed
  qed
qed

theorem createCharTable_row_major_witness:
  "createCharTable default_text (\<lambda>_. Some ''1 0 1 1 0 1'') (\<lambda>_ _ _. CHR ''x'') ! 0 ! 0
     = ''10110''
   \<and> createCharTable default_text (\<lambda>_. Some ''1 0 1 1 0 1'') (\<lambda>_ _ _. CHR ''x'') ! 1 ! 0
     = ''1xxxx''"
proof -
  have m: "marks (Some ''1 0 1 1 0 1'') = ''101101''" by (simp add: marks_def isspace_def)
  have n: "length availableChars = 41" by (simp add: availableChars_def)
  have f: "fontSize default_text = 5" by (simp add: default_text_def)
  have u: "[0..<41] ! 0 = 0" "[0..<41] ! 1 = 1" "[0..<5] = [0, 1, 2, 3, 4]"
    by (simp_all add: upt_rec)
  show ?thesis
    using createCharTable_row_major
      [of default_text "\<lambda>_. Some ''1 0 1 1 0 1''" "\<lambda>_ _ _. CHR ''x''"]
    by (simp add: interleaved_layout_def m n f u Let_def)
qed

text \<open>
  C7. While \<open>output\<close> writes the buffer that \<open>createText\<close> made, each row goes out as its
  groups of \<open>fontSize\<close> cells, one group per character of the string, every group
  followed by exactly one \<open>backgroundChar\<close>, and a newline after the last group. The
  spacing is not in the buffer: its rows have exactly \<open>length str * fontSize\<close> cells, and
  \<open>output\<close> adds the character as it writes.
\<close>

theorem output_spacing:
  assumes "set (str t) \<subseteq> set availableChars" and "wf_table (fontSize t) tab"
  shows "\<exists>buf c'. createText t tab heap = Some buf
     \<and> map length buf = replicate (fontSize t) (length (str t) * fontSize t)
     \<and> output_text t buf line column c = Some c'
     \<and> trace c' = trace c
          @ [SetAttr (Color_to_int (textColor t)), SetPos (to_SHORT column) (to_SHORT line)]
          @ concat (map (\<lambda>i. SetPos (to_SHORT column) (to_SHORT (line + int i))
                     # map Put (concat (map (\<lambda>m. take (fontSize t) (drop (m * fontSize t) (buf ! i))
                                                  @ [backgroundChar t])
                                         [0..<length (str t)]))
                     @ [Put (CHR 0x0A)])
                   [0..<fontSize t])
          @ [SetAttr 15]"
proof -
  from createText_cells [OF assms, of heap]
  obtain buf where b: "createText t tab heap = Some buf"
    and w: "wf_text (fontSize t) (length (str t) * fontSize t) buf" by blast
  let ?c' = "c\<lparr>attribute := 15, trace := trace c @ output_events t buf line column\<rparr>"
  have o: "output_text t buf line column c = Some ?c'" by (rule output_text_emit [OF w])
  have r: "row_events t buf line column
     = (\<lambda>i. SetPos (to_SHORT column) (to_SHORT (line + int i))
                     # map Put (concat (map (\<lambda>m. take (fontSize t) (drop (m * fontSize t) (buf ! i))
                                                  @ [backgroundChar t])
                                         [0..<length (str t)]))
                     @ [Put (CHR 0x0A)])"
    by (simp add: fun_eq_iff row_events_def spaced_row_def)
  have "trace ?c' = trace c
          @ [SetAttr (Color_to_int (textColor t)), SetPos (to_SHORT column) (to_SHORT line)]
          @ concat (map (\<lambda>i. SetPos (to_SHORT column) (to_SHORT (line + int i))
                     # map Put (concat (map (\<lambda>m. take (fontSize t) (drop (m * fontSize t) (buf ! i))
                                                  @ [backgroundChar t])
                                         [0..<length (str t)]))
                     @ [Put (CHR 0x0A)])
                   [0..<fontSize t])
          @ [SetAttr 15]"
    by (simp add: output_events_def r)
  moreover from w have "map length buf = replicate (fontSize t) (length (str t) * fontSize t)"
    by (simp add: wf_text_def)
  ultimately show ?thesis using b o by blast
qed

theorem output_spacing_witness:
  "set (str (default_text\<lparr>str := ''HI''\<rparr>)) \<subseteq> set availableChars
   \<and> wf_table (fontSize (default_text\<lparr>str := ''HI''\<rparr>))
        (replicate 41 (replicate 5 (replicate 5 (CHR ''1''))))
   \<and> (\<exists>buf c'. createText (default_text\<lparr>str := ''HI''\<rparr>)
                  (replicate 41 (replicate 5 (replicate 5 (CHR ''1'')))) (\<lambda>_ _. CHR ''u'') = Some buf
     \<and> map length buf = replicate 5 10
     \<and> output_text (default_text\<lparr>str := ''HI''\<rparr>) buf 3 4 \<lparr>attribute = 7, trace = []\<rparr> = Some c'
     \<and> trace c' =
          [SetAttr 15, SetPos 4 3]
          @ concat (map (\<lambda>i. SetPos 4 (to_SHORT (3 + int i))
                     # map Put (take 5 (buf ! i) @ '' '' @ take 5 (drop 5 (buf ! i)) @ '' '')
                     @ [Put (CHR 0x0A)])
                   [0..<5])
          @ [SetAttr 15])"
proof -
  let ?t = "default_text\<lparr>str := ''HI''\<rparr>"
  let ?tab = "replicate 41 (replicate 5 (replicate 5 (CHR ''1'')))"
  let ?c = "\<lparr>attribute = 7, trace = []\<rparr>"
  have fs: "fontSize ?t = 5" and n: "length (str ?t) = 2" and bc: "backgroundChar ?t = CHR '' ''"
    and col: "Color_to_int (textColor default_text) = 15"
    by (simp_all add: default_text_def)
  have n41: "length availableChars = 41" by (simp add: availableChars_def)
  have h1: "set (str ?t) \<subseteq> set availableChars" by (simp add: availableChars_def)
  have h2: "wf_table (fontSize ?t) ?tab"
    by (simp add: wf_table_def dims_def fs n41)
  have u: "[0..<2] = [0, 1]" by (simp add: upt_rec)
  have sh: "to_SHORT 4 = 4" "to_SHORT 3 = 3" by (simp_all add: to_SHORT_def)
  from output_spacing [OF h1 h2, of "\<lambda>_ _. CHR ''u''" 3 4 ?c]
  have ex: "\<exists>buf c'. createText ?t ?tab (\<lambda>_ _. CHR ''u'') = Some buf
     \<and> map length buf = replicate 5 10
     \<and> output_text ?t buf 3 4 ?c = Some c'
     \<and> trace c' =
          [SetAttr 15, SetPos 4 3]
          @ concat (map (\<lambda>i. SetPos 4 (to_SHORT (3 + int i))
                     # map Put (take 5 (buf ! i) @ '' '' @ take 5 (drop 5 (buf ! i)) @ '' '')
                     @ [Put (CHR 0x0A)])
                   [0..<5])
          @ [SetAttr 15]"
    by (simp add: fs n bc col u sh)
  show ?thesis by (intro conjI h1 h2 ex)
qed

text \<open>
  C8. Every \<open>print\<close> that returns leaves the console with the attribute
  \<open>Black * 16 + BrightWhite = 15\<close>, background 0 and foreground 15, as the last call of
  its trace, whatever \<open>textColor\<close> the object has; and \<open>print\<close> does return for every
  object whose string has only available characters.
\<close>

theorem print_resets_color:
  "(\<forall>c'. print t line column fs theap bheap c = Some c' \<longrightarrow>
       attribute c' = Color_to_int Black * 16 + Color_to_int BrightWhite
       \<and> attribute c' div 16 = Color_to_int Black
       \<and> attribute c' mod 16 = Color_to_int BrightWhite
       \<and> attribute c' = 15
       \<and> last (trace c') = SetAttr 15)
   \<and> (set (str t) \<subseteq> set availableChars \<longrightarrow>
        (\<exists>c'. print t line column fs theap bheap c = Some c'))"
proof -
  have "attribute c' = 15 \<and> last (trace c') = SetAttr 15"
    if "print t line column fs theap bheap c = Some c'" for c'
  proof -
    from that obtain buf where "output_text t buf line column c = Some c'"
      by (auto simp: print_def split: option.splits)
    then show ?thesis by (rule output_text_attribute)
  qed
  moreover have "\<exists>c'. print t line column fs theap bheap c = Some c'"
    if "set (str t) \<subseteq> set availableChars"
    using print_valid [OF that, of fs theap bheap line column c] by blast
  ultimately show ?thesis by simp
qed

theorem print_resets_color_witness:
  "set (str (default_text\<lparr>str := ''HI'', textColor := Red\<rparr>)) \<subseteq> set availableChars
   \<and> (\<exists>c'. print (default_text\<lparr>str := ''HI'', textColor := Red\<rparr>) 3 4 (\<lambda>_. None)
             (\<lambda>_ _ _. CHR ''x'') (\<lambda>_ _. CHR ''u'') \<lparr>attribute = 7, trace = []\<rparr> = Some c'
          \<and> attribute c' = 15 \<and> last (trace c') = SetAttr 15)"
proof -
  let ?t = "default_text\<lparr>str := ''HI'', textColor := Red\<rparr>"
  note th = print_resets_color [of ?t 3 4 "\<lambda>_. None" "\<lambda>_ _ _. CHR ''x''" "\<lambda>_ _. CHR ''u''"
      "\<lparr>attribute = 7, trace = []\<rparr>"]
  have h: "set (str ?t) \<subseteq> set availableChars" by (simp add: availableChars_def)
  with th obtain c' where c: "print ?t 3 4 (\<lambda>_. None) (\<lambda>_ _ _. CHR ''x'') (\<lambda>_ _. CHR ''u'')
      \<lparr>attribute = 7, trace = []\<rparr> = Some c'" by blast
  with th have "attribute c' = 15 \<and> last (trace c') = SetAttr 15" by blast
  with c have ex: "\<exists>c'. print ?t 3 4 (\<lambda>_. None) (\<lambda>_ _ _. CHR ''x'') (\<lambda>_ _. CHR ''u'')
      \<lparr>attribute = 7, trace = []\<rparr> = Some c' \<and> attribute c' = 15 \<and> last (trace c') = SetAttr 15"
    by blast
  show ?thesis by (intro conjI h ex)
qed

text \<open>
  C9, as stated, has the size always 5 or 7 because the argument type of \<open>setFontSize\<close>
  admits only \<open>Small\<close> and \<open>Big\<close>. The type admits every value of its underlying type:
  after \<open>setFontSize(static_cast<FontSize>(6))\<close> on a default-constructed object the
  stored size is 6.
\<close>

theorem fontSize_counterexample:
  "fontSize (after_operations DefaultConstructor [OpSetFontSize (FontSize_of_int 6)]) = 6
   \<and> fontSize (after_operations DefaultConstructor [OpSetFontSize (FontSize_of_int 6)])
        \<notin> {5, 7}"
  by (simp add: after_operations_def setFontSize_def)

text \<open>
  C9, amended. \<open>fontSize\<close> is 5 after default construction; \<open>setFontSize\<close> and the
  five-argument constructor store the integer value of their size argument unchecked,
  5 for \<open>Small\<close> and 7 for \<open>Big\<close>. So after either constructor and any sequence of
  public operations that pass only \<open>Small\<close> or \<open>Big\<close> as sizes, \<open>fontSize\<close> is 5 or 7,
  every glyph of the object's table has \<open>fontSize\<close> rows of \<open>fontSize\<close> cells and its
  buffer has \<open>fontSize\<close> rows, 5 or 7.
\<close>

theorem fontSize_5_or_7:
  "fontSize (constructed DefaultConstructor) = 5
   \<and> FontSize_to_int Small = 5
   \<and> FontSize_to_int Big = 7
   \<and> fontSize (setFontSize sz t) = FontSize_to_int sz
   \<and> fontSize (constructed (Constructor s tc bc sz color)) = FontSize_to_int sz
   \<and> (named_construction k \<and> list_all named_operation ops \<longrightarrow>
        fontSize (after_operations k ops) \<in> {5, 7}
        \<and> dims (createCharTable (after_operations k ops) fs theap)
            = replicate (length availableChars)
                (replicate (fontSize (after_operations k ops))
                   (fontSize (after_operations k ops)))
        \<and> (\<exists>buf. createText (after_operations k ops)
                    (createCharTable (after_operations k ops) fs theap) bheap = Some buf
              \<and> length buf = fontSize (after_operations k ops) \<and> length buf \<in> {5, 7}))"
proof -
  let ?t = "after_operations k ops"
  have v: "set (str ?t) \<subseteq> set availableChars" by (rule after_operations_valid)
  from createText_cells [OF v wf_createCharTable, of fs theap bheap]
  obtain buf where b: "createText ?t (createCharTable ?t fs theap) bheap = Some buf"
    and w: "wf_text (fontSize ?t) (length (str ?t) * fontSize ?t) buf" by blast
  from w have l: "length buf = fontSize ?t" by (simp add: wf_text_iff)
  have d: "dims (createCharTable ?t fs theap)
         = replicate (length availableChars) (replicate (fontSize ?t) (fontSize ?t))"
    using wf_createCharTable [of ?t fs theap] by (simp add: wf_table_def)
  have named: "fontSize ?t \<in> {5, 7}
        \<and> dims (createCharTable ?t fs theap)
            = replicate (length availableChars) (replicate (fontSize ?t) (fontSize ?t))
        \<and> (\<exists>buf. createText ?t (createCharTable ?t fs theap) bheap = Some buf
              \<and> length buf = fontSize ?t \<and> length buf \<in> {5, 7})"
    if "named_construction k \<and> list_all named_operation ops"
  proof -
    from that have "named_construction k" "list_all named_operation ops" by simp_all
    then have f: "fontSize ?t \<in> {5, 7}" by (rule after_operations_size)
    with l have "length buf \<in> {5, 7}" by simp
    with b l have "\<exists>buf. createText ?t (createCharTable ?t fs theap) bheap = Some buf
              \<and> length buf = fontSize ?t \<and> length buf \<in> {5, 7}" by blast
    with f d show ?thesis by blast
  qed
  have c: "fontSize (constructed DefaultConstructor) = 5" by (simp add: default_text_def)
  have g: "fontSize (setFontSize sz t) = FontSize_to_int sz" by (simp add: setFontSize_def)
  have h: "fontSize (constructed (Constructor s tc bc sz color)) = FontSize_to_int sz"
    by (simp add: construct_size)
  from named have n: "named_construction k \<and> list_all named_operation ops \<longrightarrow>
        fontSize ?t \<in> {5, 7}
        \<and> dims (createCharTable ?t fs theap)
            = replicate (length availableChars) (replicate (fontSize ?t) (fontSize ?t))
        \<and> (\<exists>buf. createText ?t (createCharTable ?t fs theap) bheap = Some buf
              \<and> length buf = fontSize ?t \<and> length buf \<in> {5, 7})" by blast
  show ?thesis
    by (intro conjI c g h n FontSize_to_int_Small FontSize_to_int_Big)
qed

theorem fontSize_5_or_7_witness:
  "named_construction (Constructor ''HI'' (CHR ''@'') (CHR '' '') Small Red)
   \<and> list_all named_operation
        [OpSetString ''H@'', OpSetFontSize Big, OpPrint 1 1, OpSetTextColor Blue]
   \<and> after_operations (Constructor ''HI'' (CHR ''@'') (CHR '' '') Small Red)
       [OpSetString ''H@'', OpSetFontSize Big, OpPrint 1 1, OpSetTextColor Blue]
     = \<lparr>str = ''HI'', textChar = CHR ''@'', backgroundChar = CHR '' '', fontSize = 7,
        textColor = Blue\<rparr>
   \<and> fontSize (after_operations (Constructor ''HI'' (CHR ''@'') (CHR '' '') Small Red)
       [OpSetString ''H@'', OpSetFontSize Big, OpPrint 1 1, OpSetTextColor Blue]) \<in> {5, 7}"
proof -
  let ?k = "Constructor ''HI'' (CHR ''@'') (CHR '' '') Small Red"
  let ?ops = "[OpSetString ''H@'', OpSetFontSize Big, OpPrint 1 1, OpSetTextColor Blue]"
  have h1: "named_construction ?k" by (simp add: named_size_def)
  have h2: "list_all named_operation ?ops" by (simp add: named_size_def)
  have a: "setString ''HI'' u = ([], u\<lparr>str := ''HI''\<rparr>)"
    "setString ''H@'' u = (unavailable_message (CHR ''@''), u)" for u
    by (simp_all add: setString_def availableChars_def)
  have e: "after_operations ?k ?ops
     = \<lparr>str = ''HI'', textChar = CHR ''@'', backgroundChar = CHR '' '', fontSize = 7,
        textColor = Blue\<rparr>"
    by (simp add: after_operations_def construct_def setFontSize_def
        setTextColor_def default_text_def a)
  from h1 h2 fontSize_5_or_7 [of Small default_text "''HI''" "CHR ''@''" "CHR '' ''" Red ?k ?ops
      "\<lambda>_. None" "\<lambda>_ _ _. CHR ''x''" "\<lambda>_ _. CHR ''u''"]
  have f: "fontSize (after_operations ?k ?ops) \<in> {5, 7}" by blast
  show ?thesis by (intro conjI h1 h2 e f)
qed

text \<open>
  C10, as stated, has the cells of the buffer within \<open>{textChar, backgroundChar}\<close> only
  when every mark of the table is \<open>1\<close> or \<open>0\<close>. With the string \<open>A\<close>, \<open>textChar\<close> \<open>#\<close> and a
  table whose marks are all \<open>#\<close>, every cell of the buffer is the copied mark \<open>#\<close>, which
  is \<open>textChar\<close>, while no mark of the table is \<open>1\<close> or \<open>0\<close>.
\<close>

theorem createText_only_when_counterexample:
  "createText (default_text\<lparr>str := ''A''\<rparr>)
       (replicate 41 (replicate 5 (replicate 5 (CHR ''#'')))) (\<lambda>_ _. CHR ''u'')
     = Some (replicate 5 (replicate 5 (CHR ''#'')))
   \<and> set (concat (replicate 5 (replicate 5 (CHR ''#''))))
       \<subseteq> {textChar (default_text\<lparr>str := ''A''\<rparr>),
           backgroundChar (default_text\<lparr>str := ''A''\<rparr>)}
   \<and> \<not> set (concat (concat (replicate 41 (replicate 5 (replicate 5 (CHR ''#''))))))
         \<subseteq> {CHR ''1'', CHR ''0''}"
proof -
  let ?t = "default_text\<lparr>str := ''A''\<rparr>"
  let ?tab = "replicate 41 (replicate 5 (replicate 5 (CHR ''#'')))"
  have fs: "fontSize ?t = 5" and n: "length (str ?t) = 1" and s0: "str ?t ! 0 = CHR ''A''"
    and tc: "textChar ?t = CHR ''#''"
    by (simp_all add: default_text_def)
  have n41: "length availableChars = 41" by (simp add: availableChars_def)
  have h1: "set (str ?t) \<subseteq> set availableChars" by (simp add: availableChars_def)
  have h2: "wf_table (fontSize ?t) ?tab"
    by (simp add: wf_table_def dims_def fs n41)
  have "CHR ''A'' \<in> set availableChars" by (simp add: availableChars_def)
  from glyph_index_available(2) [OF this] have g: "glyph_index (CHR ''A'') < 41"
    by (simp add: n41)
  from createText_cells [OF h1 h2, of "\<lambda>_ _. CHR ''u''"]
  obtain buf where b: "createText ?t ?tab (\<lambda>_ _. CHR ''u'') = Some buf"
    and w: "wf_text (fontSize ?t) (length (str ?t) * fontSize ?t) buf"
    and c: "\<And>i j k. i < length (str ?t) \<Longrightarrow> j < fontSize ?t \<Longrightarrow> k < fontSize ?t \<Longrightarrow>
           buf ! j ! (i * fontSize ?t + k)
             = render_mark ?t (?tab ! glyph_index (str ?t ! i) ! j ! k)"
    by blast
  from w have len: "length buf = 5" and rows: "\<And>j. j < 5 \<Longrightarrow> length (buf ! j) = 5"
    by (simp_all add: wf_text_iff fs n)
  have cell: "buf ! j ! k = CHR ''#''" if "j < 5" "k < 5" for j k
  proof -
    have "buf ! j ! (0 * fontSize ?t + k)
        = render_mark ?t (?tab ! glyph_index (str ?t ! 0) ! j ! k)"
      using that by (intro c) (simp_all add: fs n)
    with that g show ?thesis by (simp add: s0 render_mark_def)
  qed
  have "buf ! j = replicate 5 (CHR ''#'')" if "j < 5" for j
    using that rows [OF that] cell [OF that] by (simp add: list_eq_iff_nth_eq)
  with len have "buf = replicate 5 (replicate 5 (CHR ''#''))"
    by (simp add: list_eq_iff_nth_eq)
  with b have e: "createText ?t ?tab (\<lambda>_ _. CHR ''u'')
     = Some (replicate 5 (replicate 5 (CHR ''#'')))" by simp
  have r: "set (concat (replicate 5 (replicate 5 (CHR ''#''))))
       \<subseteq> {textChar ?t, backgroundChar ?t}" by (simp add: tc)
  have m: "\<not> set (concat (concat ?tab)) \<subseteq> {CHR ''1'', CHR ''0''}" by simp
  show ?thesis by (intro conjI e r m)
qed

text \<open>
  C10, amended. \<open>createText\<close> never fails on the contents of the table: for a string of
  available characters and a table of the object's size holding any characters at
  all, it returns a buffer, where a mark that is neither \<open>1\<close> nor \<open>0\<close> is found unchanged
  in its cell, and so outside \<open>{textChar, backgroundChar}\<close> unless it is one of these
  two characters itself. When every mark of the table is \<open>1\<close> or \<open>0\<close>, all cells of the
  buffer are \<open>textChar\<close> or \<open>backgroundChar\<close>; and a table gives that for all strings
  and all choices of the two characters exactly when all its marks are \<open>1\<close> or \<open>0\<close>.
\<close>

theorem createText_raw_marks:
  assumes "set (str t) \<subseteq> set availableChars"
    and "wf_table (fontSize t) tab"
  shows "(\<exists>buf. createText t tab heap = Some buf
     \<and> (\<forall>i<length (str t). \<forall>j<fontSize t. \<forall>k<fontSize t.
           \<exists>g. find_str availableChars (str t ! i) = Some g
             \<and> buf ! j ! (i * fontSize t + k)
                = (if tab ! g ! j ! k = CHR ''1'' then textChar t
                   else if tab ! g ! j ! k = CHR ''0'' then backgroundChar t
                   else tab ! g ! j ! k)
             \<and> (tab ! g ! j ! k \<notin> {CHR ''1'', CHR ''0'', textChar t, backgroundChar t}
                  \<longrightarrow> buf ! j ! (i * fontSize t + k) \<notin> {textChar t, backgroundChar t}))
     \<and> (set (concat (concat tab)) \<subseteq> {CHR ''1'', CHR ''0''}
          \<longrightarrow> set (concat buf) \<subseteq> {textChar t, backgroundChar t}))
   \<and> ((\<forall>u. fontSize u = fontSize t \<and> set (str u) \<subseteq> set availableChars \<longrightarrow>
            (\<exists>buf. createText u tab heap = Some buf
               \<and> set (concat buf) \<subseteq> {textChar u, backgroundChar u}))
       \<longleftrightarrow> set (concat (concat tab)) \<subseteq> {CHR ''1'', CHR ''0''})"
proof -
  from createText_cells [OF assms(1,2), of heap]
  obtain buf where b: "createText t tab heap = Some buf"
    and w: "wf_text (fontSize t) (length (str t) * fontSize t) buf"
    and c: "\<And>i j k. i < length (str t) \<Longrightarrow> j < fontSize t \<Longrightarrow> k < fontSize t \<Longrightarrow>
           buf ! j ! (i * fontSize t + k)
             = render_mark t (tab ! glyph_index (str t ! i) ! j ! k)"
    by blast
  have cells: "\<exists>g. find_str availableChars (str t ! i) = Some g
             \<and> buf ! j ! (i * fontSize t + k)
                = (if tab ! g ! j ! k = CHR ''1'' then textChar t
                   else if tab ! g ! j ! k = CHR ''0'' then backgroundChar t
                   else tab ! g ! j ! k)
             \<and> (tab ! g ! j ! k \<notin> {CHR ''1'', CHR ''0'', textChar t, backgroundChar t}
                  \<longrightarrow> buf ! j ! (i * fontSize t + k) \<notin> {textChar t, backgroundChar t})"
    if i: "i < length (str t)" and j: "j < fontSize t" and k: "k < fontSize t" for i j k
  proof -
    have a: "str t ! i \<in> set availableChars" using assms(1) i by auto
    note g = glyph_index_available [OF a]
    from c [OF i j k] g(1) show ?thesis by (auto simp: render_mark_def)
  qed
  have iff: "(\<forall>u. fontSize u = fontSize t \<and> set (str u) \<subseteq> set availableChars \<longrightarrow>
            (\<exists>buf. createText u tab heap = Some buf
               \<and> set (concat buf) \<subseteq> {textChar u, backgroundChar u}))
       \<longleftrightarrow> set (concat (concat tab)) \<subseteq> {CHR ''1'', CHR ''0''}"
    by (rule cells_restricted_iff [OF assms(2)])
  have "set (concat buf) \<subseteq> {textChar t, backgroundChar t}"
    if m: "set (concat (concat tab)) \<subseteq> {CHR ''1'', CHR ''0''}"
  proof -
    from m iff assms(1) have "\<exists>buf. createText t tab heap = Some buf
               \<and> set (concat buf) \<subseteq> {textChar t, backgroundChar t}" by blast
    with b show ?thesis by simp
  qed
  with cells b
  have first: "\<exists>buf. createText t tab heap = Some buf
     \<and> (\<forall>i<length (str t). \<forall>j<fontSize t. \<forall>k<fontSize t.
           \<exists>g. find_str availableChars (str t ! i) = Some g
             \<and> buf ! j ! (i * fontSize t + k)
                = (if tab ! g ! j ! k = CHR ''1'' then textChar t
                   else if tab ! g ! j ! k = CHR ''0'' then backgroundChar t
                   else tab ! g ! j ! k)
             \<and> (tab ! g ! j ! k \<notin> {CHR ''1'', CHR ''0'', textChar t, backgroundChar t}
                  \<longrightarrow> buf ! j ! (i * fontSize t + k) \<notin> {textChar t, backgroundChar t}))
     \<and> (set (concat (concat tab)) \<subseteq> {CHR ''1'', CHR ''0''}
          \<longrightarrow> set (concat buf) \<subseteq> {textChar t, backgroundChar t})"
    by blast
  from first iff show ?thesis by (rule conjI)
qed

theorem createText_raw_marks_witness:
  "set (str (default_text\<lparr>str := ''A''\<rparr>)) \<subseteq> set availableChars
   \<and> wf_table (fontSize (default_text\<lparr>str := ''A''\<rparr>))
        (replicate 41 (replicate 5 (replicate 5 (CHR ''x''))))
   \<and> (\<exists>buf. createText (default_text\<lparr>str := ''A''\<rparr>)
               (replicate 41 (replicate 5 (replicate 5 (CHR ''x'')))) (\<lambda>_ _. CHR ''u'') = Some buf
          \<and> buf ! 0 ! 0 = CHR ''x''
          \<and> buf ! 0 ! 0 \<notin> {CHR ''#'', CHR '' ''})"
proof -
  let ?t = "default_text\<lparr>str := ''A''\<rparr>"
  let ?tab = "replicate 41 (replicate 5 (replicate 5 (CHR ''x'')))"
  have fs: "fontSize ?t = 5" and n: "length (str ?t) = 1" and tc: "textChar ?t = CHR ''#''"
    and bc: "backgroundChar ?t = CHR '' ''"
    by (simp_all add: default_text_def)
  have n41: "length availableChars = 41" by (simp add: availableChars_def)
  have h1: "set (str ?t) \<subseteq> set availableChars" by (simp add: availableChars_def)
  have h2: "wf_table (fontSize ?t) ?tab"
    by (simp add: wf_table_def dims_def fs n41)
  from conjunct1 [OF createText_raw_marks [OF h1 h2, of "\<lambda>_ _. CHR ''u''"]]
  obtain buf where b: "createText ?t ?tab (\<lambda>_ _. CHR ''u'') = Some buf"
    and c: "\<And>i j k. i < length (str ?t) \<Longrightarrow> j < fontSize ?t \<Longrightarrow> k < fontSize ?t \<Longrightarrow>
           \<exists>g. find_str availableChars (str ?t ! i) = Some g
             \<and> buf ! j ! (i * fontSize ?t + k)
                = (if ?tab ! g ! j ! k = CHR ''1'' then textChar ?t
                   else if ?tab ! g ! j ! k = CHR ''0'' then backgroundChar ?t
                   else ?tab ! g ! j ! k)
             \<and> (?tab ! g ! j ! k \<notin> {CHR ''1'', CHR ''0'', textChar ?t, backgroundChar ?t}
                  \<longrightarrow> buf ! j ! (i * fontSize ?t + k) \<notin> {textChar ?t, backgroundChar ?t})"
    by blast
  have "0 < length (str ?t)" "0 < fontSize ?t" by (simp_all add: fs)
  from c [OF this(1) this(2) this(2)]
  obtain g where g: "find_str availableChars (str ?t ! 0) = Some g"
    and v: "?tab ! g ! 0 ! 0 \<notin> {CHR ''1'', CHR ''0'', textChar ?t, backgroundChar ?t}
                  \<longrightarrow> buf ! 0 ! (0 * fontSize ?t + 0) \<notin> {textChar ?t, backgroundChar ?t}"
    and u: "buf ! 0 ! (0 * fontSize ?t + 0)
                = (if ?tab ! g ! 0 ! 0 = CHR ''1'' then textChar ?t
                   else if ?tab ! g ! 0 ! 0 = CHR ''0'' then backgroundChar ?t
                   else ?tab ! g ! 0 ! 0)"
    by blast
  from find_str_Some [OF g] have g41: "g < 41" by (simp add: n41)
  with u have v0: "buf ! 0 ! 0 = CHR ''x''" by simp
  from g41 v tc bc have v1: "buf ! 0 ! 0 \<notin> {CHR ''#'', CHR '' ''}" by simp
  from b v0 v1
  have ex: "\<exists>buf. createText ?t ?tab (\<lambda>_ _. CHR ''u'') = Some buf
          \<and> buf ! 0 ! 0 = CHR ''x'' \<and> buf ! 0 ! 0 \<notin> {CHR ''#'', CHR '' ''}"
    by blast
  show ?thesis by (intro conjI h1 h2 ex)
qed

end
